theory Spec2Isabelle
  imports Complex_Main "HOL-Library.Log_Nat" "HOL-Library.AList"
begin

section \<open>Python values used by the notebook\<close>

text \<open>
  The two functions of \<^verbatim>\<open>data_preparation.ipynb\<close> read text files, convert their
  tokens with \<^verbatim>\<open>float\<close>, compute with Python floats and integers, and raise
  exceptions that nothing catches. Exceptions are values of \<open>error\<close>; a computation
  that can raise returns \<open>error + 'a\<close> with \<open>Inl\<close> for the exception.
\<close>

datatype error = ValueError | IndexError | OverflowError | ZeroDivisionError
  | OSError

subsection \<open>Strings\<close>

text \<open>
  Text is ASCII. \<open>is_space\<close> is \<^verbatim>\<open>str.isspace\<close> on ASCII characters: tab, line
  feed, vertical tab, form feed, carriage return, the four separators 0x1C..0x1F and
  the blank.
\<close>

definition is_space :: "char \<Rightarrow> bool" where
  "is_space c = (c \<in> set [CHR 0x09, CHR 0x0A, CHR 0x0B, CHR 0x0C, CHR 0x0D,
     CHR 0x1C, CHR 0x1D, CHR 0x1E, CHR 0x1F, CHR '' ''])"

definition str_strip :: "string \<Rightarrow> string" where
  "str_strip s = rev (dropWhile is_space (rev (dropWhile is_space s)))"

text \<open>\<^verbatim>\<open>s.split()\<close>: the maximal runs of non-blank characters, in order.\<close>

fun split_from :: "string \<Rightarrow> string \<Rightarrow> string list" where
  "split_from cur [] = (if cur = [] then [] else [cur])"
| "split_from cur (c # cs) =
     (if is_space c then (if cur = [] then split_from [] cs else cur # split_from [] cs)
      else split_from (cur @ [c]) cs)"

definition str_split :: "string \<Rightarrow> string list" where
  "str_split s = split_from [] s"

text \<open>\<^verbatim>\<open>f.readlines()\<close> and \<^verbatim>\<open>for line in f\<close>: every line keeps its line feed;
  a last line without one is a line too.\<close>

fun lines_from :: "string \<Rightarrow> string \<Rightarrow> string list" where
  "lines_from cur [] = (if cur = [] then [] else [cur])"
| "lines_from cur (c # cs) =
     (if c = CHR 0x0A then (cur @ [c]) # lines_from [] cs else lines_from (cur @ [c]) cs)"

definition readlines :: "string \<Rightarrow> string list" where
  "readlines s = lines_from [] s"

text \<open>\<^verbatim>\<open>sep.join(xs)\<close>.\<close>

fun join :: "string \<Rightarrow> string list \<Rightarrow> string" where
  "join sep [] = []"
| "join sep [x] = x"
| "join sep (x # y # ys) = x @ sep @ join sep (y # ys)"

definition endswith :: "string \<Rightarrow> string \<Rightarrow> bool" where
  "endswith s suf = (length suf \<le> length s \<and> drop (length s - length suf) s = suf)"

definition is_digit :: "char \<Rightarrow> bool" where
  "is_digit c = (c \<in> set ''0123456789'')"

definition digit_val :: "char \<Rightarrow> nat" where
  "digit_val c = of_char c - 48"

definition digit_char :: "nat \<Rightarrow> char" where
  "digit_char d = ''0123456789'' ! d"

definition to_lower :: "char \<Rightarrow> char" where
  "to_lower c = (case map_of (zip ''ABCDEFGHIJKLMNOPQRSTUVWXYZ'' ''abcdefghijklmnopqrstuvwxyz'') c
                 of Some l \<Rightarrow> l | None \<Rightarrow> c)"

text \<open>\<^verbatim>\<open>str(n)\<close> for an integer: decimal digits, a minus sign when negative.\<close>

fun str_nat :: "nat \<Rightarrow> string" where
  "str_nat n = (if n < 10 then [digit_char n]
                else str_nat (n div 10) @ [digit_char (n mod 10)])"

declare str_nat.simps [simp del]

definition str_int :: "int \<Rightarrow> string" where
  "str_int i = (if i < 0 then CHR ''-'' # str_nat (nat (- i)) else str_nat (nat i))"

subsection \<open>Floats: IEEE 754 binary64, round to nearest, ties to even\<close>

text \<open>
  A Python float is a binary64 value. A finite value is kept as the rational it
  denotes; minus zero, the infinities and NaN are constructors of their own. Every
  operation computes the exact rational result and rounds it once, which is what
  IEEE 754 prescribes for \<open>+\<close>, \<open>-\<close>, \<open>*\<close>, \<open>/\<close> and what CPython does for
  \<^verbatim>\<open>float(str)\<close>, \<^verbatim>\<open>round\<close> and the \<^verbatim>\<open>.6f\<close> format.
\<close>

datatype pyfloat = Fin rat | NegZero | PInf | NInf | NaN

definition pow2 :: "int \<Rightarrow> rat" where
  "pow2 e = (if 0 \<le> e then 2 ^ nat e else 1 / 2 ^ nat (- e))"

definition pow10 :: "int \<Rightarrow> rat" where
  "pow10 e = (if 0 \<le> e then 10 ^ nat e else 1 / 10 ^ nat (- e))"

text \<open>\<open>ilog2 q\<close> is \<open>\<lfloor>log\<^sub>2 q\<rfloor>\<close> for a positive rational.\<close>

definition ilog2 :: "rat \<Rightarrow> int" where
  "ilog2 q = (let k = bitlen (fst (quotient_of q)) - bitlen (snd (quotient_of q))
              in if pow2 k \<le> q then k else k - 1)"

definition round_half_even :: "rat \<Rightarrow> int" where
  "round_half_even q =
     (let f = \<lfloor>q\<rfloor>; r = q - of_int f
      in if r < 1 / 2 then f else if 1 / 2 < r then f + 1
         else if even f then f else f + 1)"

text \<open>The exponent of the unit in the last place: 53 significant bits, and the
  subnormal grid \<open>2\<^sup>-\<^sup>1\<^sup>0\<^sup>7\<^sup>4\<close> below \<open>2\<^sup>-\<^sup>1\<^sup>0\<^sup>2\<^sup>2\<close>.\<close>

definition ulp_exp :: "rat \<Rightarrow> int" where
  "ulp_exp q = max (ilog2 q) (- 1022) - 52"

definition round_binary64 :: "rat \<Rightarrow> rat" where
  "round_binary64 q =
     (if q = 0 then 0
      else of_int (round_half_even (q / pow2 (ulp_exp \<bar>q\<bar>))) * pow2 (ulp_exp \<bar>q\<bar>))"

definition max_finite :: rat where
  "max_finite = (2 ^ 53 - 1) * 2 ^ 971"

text \<open>Rounding an exact result to a float; \<open>neg\<close> is the sign given to a zero result.\<close>

definition to_float :: "bool \<Rightarrow> rat \<Rightarrow> pyfloat" where
  "to_float neg q =
     (let r = round_binary64 q
      in if max_finite < r then PInf else if r < - max_finite then NInf
         else if r = 0 then (if neg then NegZero else Fin 0) else Fin r)"

fun fval :: "pyfloat \<Rightarrow> rat" where
  "fval (Fin q) = q"
| "fval _ = 0"

fun is_neg :: "pyfloat \<Rightarrow> bool" where
  "is_neg (Fin q) = (q < 0)"
| "is_neg NegZero = True"
| "is_neg NInf = True"
| "is_neg _ = False"

fun is_finite :: "pyfloat \<Rightarrow> bool" where
  "is_finite (Fin q) = True"
| "is_finite NegZero = True"
| "is_finite _ = False"

fun fneg :: "pyfloat \<Rightarrow> pyfloat" where
  "fneg (Fin q) = (if q = 0 then NegZero else Fin (- q))"
| "fneg NegZero = Fin 0"
| "fneg PInf = NInf"
| "fneg NInf = PInf"
| "fneg NaN = NaN"

text \<open>\<open>x + y\<close>. An exact zero sum is \<open>-0.0\<close> only when both operands are \<open>-0.0\<close>.\<close>

definition fadd :: "pyfloat \<Rightarrow> pyfloat \<Rightarrow> pyfloat" where
  "fadd x y =
     (if x = NaN \<or> y = NaN then NaN
      else if x = PInf then (if y = NInf then NaN else PInf)
      else if x = NInf then (if y = PInf then NaN else NInf)
      else if y = PInf then PInf
      else if y = NInf then NInf
      else if fval x + fval y = 0
           then (if x = NegZero \<and> y = NegZero then NegZero else Fin 0)
      else to_float (fval x + fval y < 0) (fval x + fval y))"

definition fsub :: "pyfloat \<Rightarrow> pyfloat \<Rightarrow> pyfloat" where
  "fsub x y = fadd x (fneg y)"

text \<open>\<open>x * y\<close>.\<close>

definition fmul :: "pyfloat \<Rightarrow> pyfloat \<Rightarrow> pyfloat" where
  "fmul x y =
     (if x = NaN \<or> y = NaN then NaN
      else if \<not> is_finite x \<or> \<not> is_finite y
           then (if (is_finite x \<and> fval x = 0) \<or> (is_finite y \<and> fval y = 0) then NaN
                 else if is_neg x \<noteq> is_neg y then NInf else PInf)
      else to_float (is_neg x \<noteq> is_neg y) (fval x * fval y))"

text \<open>\<open>x / y\<close>: Python raises \<^verbatim>\<open>ZeroDivisionError\<close> on a zero divisor.\<close>

definition fdiv :: "pyfloat \<Rightarrow> pyfloat \<Rightarrow> error + pyfloat" where
  "fdiv x y =
     (if is_finite y \<and> fval y = 0 then Inl ZeroDivisionError
      else if x = NaN \<or> y = NaN then Inr NaN
      else if \<not> is_finite x
           then (if \<not> is_finite y then Inr NaN
                 else if is_neg x \<noteq> is_neg y then Inr NInf else Inr PInf)
      else if \<not> is_finite y then (if is_neg x \<noteq> is_neg y then Inr NegZero else Inr (Fin 0))
      else Inr (to_float (is_neg x \<noteq> is_neg y) (fval x / fval y)))"

text \<open>\<open>x < y\<close> and \<open>x > y\<close>: false as soon as one side is NaN; the two zeros are equal.\<close>

fun rank :: "pyfloat \<Rightarrow> int" where
  "rank PInf = 1"
| "rank NInf = - 1"
| "rank _ = 0"

definition flt :: "pyfloat \<Rightarrow> pyfloat \<Rightarrow> bool" where
  "flt x y = (x \<noteq> NaN \<and> y \<noteq> NaN \<and>
     (rank x < rank y \<or> (rank x = rank y \<and> fval x < fval y)))"

definition fgt :: "pyfloat \<Rightarrow> pyfloat \<Rightarrow> bool" where
  "fgt x y = flt y x"

text \<open>\<^verbatim>\<open>min(xs)\<close> and \<^verbatim>\<open>max(xs)\<close>: the first element is kept until a later one
  compares strictly smaller (greater); an empty argument raises \<^verbatim>\<open>ValueError\<close>.\<close>

definition py_min :: "pyfloat list \<Rightarrow> error + pyfloat" where
  "py_min xs = (case xs of [] \<Rightarrow> Inl ValueError
     | x # r \<Rightarrow> Inr (fold (\<lambda>y m. if flt y m then y else m) r x))"

definition py_max :: "pyfloat list \<Rightarrow> error + pyfloat" where
  "py_max xs = (case xs of [] \<Rightarrow> Inl ValueError
     | x # r \<Rightarrow> Inr (fold (\<lambda>y m. if fgt y m then y else m) r x))"

text \<open>\<^verbatim>\<open>round(x)\<close> with one argument returns an integer, ties to even; it raises
  on an infinity and on NaN. \<^verbatim>\<open>int\<close> of that integer is the integer.\<close>

fun py_round :: "pyfloat \<Rightarrow> error + int" where
  "py_round (Fin q) = Inr (round_half_even q)"
| "py_round NegZero = Inr 0"
| "py_round PInf = Inl OverflowError"
| "py_round NInf = Inl OverflowError"
| "py_round NaN = Inl ValueError"

text \<open>An integer operand of a float operation is converted first, and
  \<^verbatim>\<open>OverflowError\<close> is raised when it is too large for a float.\<close>

definition float_of_int :: "int \<Rightarrow> error + pyfloat" where
  "float_of_int n =
     (let r = round_binary64 (of_int n)
      in if max_finite < \<bar>r\<bar> then Inl OverflowError else Inr (Fin r))"

subsection \<open>The format \<^verbatim>\<open>.6f\<close>\<close>

text \<open>The exact value is rounded to six decimals, ties to even; \<open>scaled6\<close> is the
  rounded magnitude in millionths.\<close>

definition scaled6 :: "rat \<Rightarrow> nat" where
  "scaled6 q = nat (round_half_even (\<bar>q\<bar> * 10 ^ 6))"

definition fixed6 :: "nat \<Rightarrow> string" where
  "fixed6 n = str_nat (n div 10 ^ 6) @ ''.'' @
     replicate (6 - length (str_nat (n mod 10 ^ 6))) CHR ''0'' @ str_nat (n mod 10 ^ 6)"

fun fmt6 :: "pyfloat \<Rightarrow> string" where
  "fmt6 (Fin q) = (if q < 0 then ''-'' else '''') @ fixed6 (scaled6 q)"
| "fmt6 NegZero = ''-0.000000''"
| "fmt6 PInf = ''inf''"
| "fmt6 NInf = ''-inf''"
| "fmt6 NaN = ''nan''"

subsection \<open>\<^verbatim>\<open>float(s)\<close>\<close>

text \<open>
  The grammar of the Python reference: an optional sign, then \<^verbatim>\<open>inf\<close>,
  \<^verbatim>\<open>infinity\<close> or \<^verbatim>\<open>nan\<close> in any case, or a decimal number with an optional
  exponent; digits may be grouped by single underscores; the blanks that \<^verbatim>\<open>float\<close>
  ignores around the text are tab, line feed, vertical tab, form feed, carriage return
  and the blank. Everything else raises \<^verbatim>\<open>ValueError\<close>. The decimal value is
  rounded once to the nearest float.
\<close>

fun more_digits :: "nat list \<Rightarrow> string \<Rightarrow> nat list \<times> string" where
  "more_digits acc [] = (acc, [])"
| "more_digits acc [c] = (if is_digit c then (acc @ [digit_val c], []) else (acc, [c]))"
| "more_digits acc (c # d # ds) =
     (if is_digit c then more_digits (acc @ [digit_val c]) (d # ds)
      else if c = CHR ''_'' \<and> is_digit d then more_digits (acc @ [digit_val d]) ds
      else (acc, c # d # ds))"

definition digitpart :: "string \<Rightarrow> (nat list \<times> string) option" where
  "digitpart s = (case s of [] \<Rightarrow> None
     | c # cs \<Rightarrow> if is_digit c then Some (more_digits [digit_val c] cs) else None)"

definition nat_of_digits :: "nat list \<Rightarrow> nat" where
  "nat_of_digits ds = foldl (\<lambda>a d. 10 * a + d) 0 ds"

definition take_sign :: "string \<Rightarrow> bool \<times> string" where
  "take_sign s = (case s of [] \<Rightarrow> (False, [])
     | c # cs \<Rightarrow> if c = CHR ''-'' then (True, cs) else if c = CHR ''+'' then (False, cs)
                 else (False, c # cs))"

definition decimal_value :: "nat list \<Rightarrow> nat list \<Rightarrow> int \<Rightarrow> rat" where
  "decimal_value ip fp ex = of_nat (nat_of_digits (ip @ fp)) * pow10 (ex - int (length fp))"

definition exponent_part :: "nat list \<Rightarrow> nat list \<Rightarrow> string \<Rightarrow> rat option" where
  "exponent_part ip fp r = (case r of [] \<Rightarrow> Some (decimal_value ip fp 0)
     | c # r' \<Rightarrow>
         if c = CHR ''e'' \<or> c = CHR ''E''
         then (case digitpart (snd (take_sign r')) of
                 Some (ed, []) \<Rightarrow>
                   Some (decimal_value ip fp
                     (if fst (take_sign r') then - int (nat_of_digits ed)
                      else int (nat_of_digits ed)))
               | _ \<Rightarrow> None)
         else None)"

definition floatnumber :: "string \<Rightarrow> rat option" where
  "floatnumber s = (case digitpart s of
       Some (ip, r1) \<Rightarrow>
         (case r1 of
            c # r2 \<Rightarrow>
              if c = CHR ''.''
              then (case digitpart r2 of Some (fp, r3) \<Rightarrow> exponent_part ip fp r3
                    | None \<Rightarrow> exponent_part ip [] r2)
              else exponent_part ip [] r1
          | [] \<Rightarrow> exponent_part ip [] r1)
     | None \<Rightarrow>
         (case s of
            c # r2 \<Rightarrow>
              if c = CHR ''.''
              then (case digitpart r2 of Some (fp, r3) \<Rightarrow> exponent_part [] fp r3
                    | None \<Rightarrow> None)
              else None
          | [] \<Rightarrow> None))"

definition float_strip :: "string \<Rightarrow> string" where
  "float_strip s =
     rev (dropWhile (\<lambda>c. c \<in> set [CHR 0x09, CHR 0x0A, CHR 0x0B, CHR 0x0C, CHR 0x0D, CHR '' ''])
       (rev (dropWhile (\<lambda>c. c \<in> set [CHR 0x09, CHR 0x0A, CHR 0x0B, CHR 0x0C, CHR 0x0D, CHR '' ''])
          s)))"

definition py_float :: "string \<Rightarrow> error + pyfloat" where
  "py_float s =
     (let (neg, body) = take_sign (float_strip s); low = map to_lower body
      in if low = ''inf'' \<or> low = ''infinity'' then Inr (if neg then NInf else PInf)
         else if low = ''nan'' then Inr NaN
         else (case floatnumber body of
                 None \<Rightarrow> Inl ValueError
               | Some q \<Rightarrow> Inr (to_float neg (if neg then - q else q))))"


section \<open>The polygon to bounding-box converter\<close>

text \<open>A list comprehension or \<^verbatim>\<open>map\<close> over a function that can raise: the first
  exception, from left to right, ends it.\<close>

fun map_raise :: "('a \<Rightarrow> error + 'b) \<Rightarrow> 'a list \<Rightarrow> error + 'b list" where
  "map_raise f [] = Inr []"
| "map_raise f (x # xs) =
     (case f x of Inl e \<Rightarrow> Inl e
      | Inr y \<Rightarrow> (case map_raise f xs of Inl e \<Rightarrow> Inl e | Inr ys \<Rightarrow> Inr (y # ys)))"

text \<open>The slice \<^verbatim>\<open>xs[0::2]\<close>; \<^verbatim>\<open>xs[1::2]\<close> is \<open>every_other (drop 1 xs)\<close>.\<close>

fun every_other :: "'a list \<Rightarrow> 'a list" where
  "every_other [] = []"
| "every_other [x] = [x]"
| "every_other (x # y # r) = x # every_other r"

text \<open>\<^verbatim>\<open>list(map(float, line.strip().split()))\<close>, the first statement of both loops.\<close>

definition parse_numbers :: "string \<Rightarrow> error + pyfloat list" where
  "parse_numbers line = map_raise py_float (str_split (str_strip line))"

text \<open>The body of the loop of \<^verbatim>\<open>convert_polygons_to_bboxes\<close> after its length
  test: from \<^verbatim>\<open>coords = parts[1:]\<close> to the formatted record.\<close>

definition bbox_record :: "int \<Rightarrow> pyfloat list \<Rightarrow> error + string" where
  "bbox_record class_id parts =
     (let coords = drop 1 parts;
          x_coords = every_other coords;
          y_coords = every_other (drop 1 coords)
      in case py_min x_coords of Inl e \<Rightarrow> Inl e | Inr x_min \<Rightarrow>
         case py_max x_coords of Inl e \<Rightarrow> Inl e | Inr x_max \<Rightarrow>
         case py_min y_coords of Inl e \<Rightarrow> Inl e | Inr y_min \<Rightarrow>
         case py_max y_coords of Inl e \<Rightarrow> Inl e | Inr y_max \<Rightarrow>
         case fdiv (fadd x_min x_max) (Fin 2) of Inl e \<Rightarrow> Inl e | Inr x_center \<Rightarrow>
         case fdiv (fadd y_min y_max) (Fin 2) of Inl e \<Rightarrow> Inl e | Inr y_center \<Rightarrow>
         Inr (join '' '' [str_int class_id, fmt6 x_center, fmt6 y_center,
                fmt6 (fsub x_max x_min), fmt6 (fsub y_max y_min)]))"

text \<open>The loop over the lines of one label file; the result is \<^verbatim>\<open>bbox_lines\<close>.\<close>

fun bbox_lines :: "int \<Rightarrow> string list \<Rightarrow> error + string list" where
  "bbox_lines class_id [] = Inr []"
| "bbox_lines class_id (line # rest) =
     (case parse_numbers line of Inl e \<Rightarrow> Inl e
      | Inr parts \<Rightarrow>
          if length parts < 6 then bbox_lines class_id rest
          else (case bbox_record class_id parts of Inl e \<Rightarrow> Inl e
                | Inr r \<Rightarrow> (case bbox_lines class_id rest of Inl e \<Rightarrow> Inl e
                            | Inr rs \<Rightarrow> Inr (r # rs))))"

subsection \<open>Files\<close>

text \<open>
  A path is text, and \<^verbatim>\<open>os.path.join\<close> is the one of \<^verbatim>\<open>posixpath\<close>. The system
  finds what a path names from its components: the path is cut at its slashes, and an
  empty component or \<^verbatim>\<open>.\<close> names nothing new. Which directory the remaining
  components name (from the root or from the working directory, through links and
  \<^verbatim>\<open>..\<close>) is the system's affair: \<open>canonical\<close> gives that directory its canonical
  name. Nothing is assumed about \<open>canonical\<close>, so two paths may name one directory.
  A directory holds regular files, each under one name, as name and text in the order
  \<^verbatim>\<open>os.listdir\<close> returns them; directories inside a directory and links to files
  are not modelled. File text is what Python's text layer reads and writes: every line
  ending is one line feed. \<open>OSError\<close> stands for every exception of \<^verbatim>\<open>open\<close>,
  \<^verbatim>\<open>os.listdir\<close> and \<^verbatim>\<open>os.makedirs\<close>; they are all subclasses of it.
\<close>

definition os_path_join :: "string \<Rightarrow> string \<Rightarrow> string" where
  "os_path_join a b =
     (if b \<noteq> [] \<and> hd b = CHR ''/'' then b
      else if a = [] \<or> last a = CHR ''/'' then a @ b
      else a @ ''/'' @ b)"

fun split_slash :: "string \<Rightarrow> string \<Rightarrow> string list" where
  "split_slash cur [] = [cur]"
| "split_slash cur (c # cs) =
     (if c = CHR ''/'' then cur # split_slash [] cs else split_slash (cur @ [c]) cs)"

definition path_parts :: "string list \<Rightarrow> string list" where
  "path_parts segments = filter (\<lambda>c. c \<noteq> [] \<and> c \<noteq> ''.'') segments"

definition is_absolute :: "string \<Rightarrow> bool" where
  "is_absolute p = (p \<noteq> [] \<and> hd p = CHR ''/'')"

type_synonym directory = "(string \<times> string) list"

record filesystem =
  canonical :: "bool \<Rightarrow> string list \<Rightarrow> string"
  dirs :: "string \<rightharpoonup> directory"

text \<open>The directory that a path names, the directory that holds the file that a path
  names, and the name of that file in it.\<close>

definition dir_at :: "filesystem \<Rightarrow> string \<Rightarrow> string" where
  "dir_at fs p = canonical fs (is_absolute p) (path_parts (split_slash [] p))"

definition parent_at :: "filesystem \<Rightarrow> string \<Rightarrow> string" where
  "parent_at fs p = canonical fs (is_absolute p) (path_parts (butlast (split_slash [] p)))"

definition basename :: "string \<Rightarrow> string" where
  "basename p = last (split_slash [] p)"

text \<open>\<^verbatim>\<open>open(p, 'r')\<close> followed by reading, and \<^verbatim>\<open>open(p, 'w')\<close> followed by
  writing: the file is created or truncated.\<close>

definition read_text :: "filesystem \<Rightarrow> string \<Rightarrow> error + string" where
  "read_text fs p =
     (if p = [] then Inl OSError
      else case dirs fs (parent_at fs p) of None \<Rightarrow> Inl OSError
        | Some files \<Rightarrow> (case map_of files (basename p) of None \<Rightarrow> Inl OSError
                         | Some text \<Rightarrow> Inr text))"

definition write_text :: "filesystem \<Rightarrow> string \<Rightarrow> string \<Rightarrow> error + filesystem" where
  "write_text fs p text =
     (if p = [] then Inl OSError
      else case dirs fs (parent_at fs p) of None \<Rightarrow> Inl OSError
        | Some files \<Rightarrow>
            Inr (fs\<lparr>dirs := (dirs fs)(parent_at fs p \<mapsto> AList.update (basename p) text files)\<rparr>))"

text \<open>\<^verbatim>\<open>os.makedirs(d, exist_ok=True)\<close> and \<^verbatim>\<open>os.listdir(d)\<close>.\<close>

definition makedirs :: "string \<Rightarrow> filesystem \<Rightarrow> error + filesystem" where
  "makedirs d fs =
     (if d = [] then Inl OSError
      else case dirs fs (dir_at fs d) of Some files \<Rightarrow> Inr fs
        | None \<Rightarrow> (case read_text fs d of Inr text \<Rightarrow> Inl OSError
                    | Inl e \<Rightarrow> Inr (fs\<lparr>dirs := (dirs fs)(dir_at fs d \<mapsto> [])\<rparr>)))"

definition listdir :: "filesystem \<Rightarrow> string \<Rightarrow> error + string list" where
  "listdir fs d =
     (if d = [] then Inl OSError
      else case dirs fs (dir_at fs d) of None \<Rightarrow> Inl OSError
        | Some files \<Rightarrow> Inr (map fst files))"

text \<open>The loop over \<^verbatim>\<open>os.listdir(label_dir)\<close>. An exception leaves the files
  written so far; the result is the file system and the exception, if any.\<close>

fun convert_files ::
  "string \<Rightarrow> string \<Rightarrow> int \<Rightarrow> string list \<Rightarrow> filesystem \<Rightarrow> filesystem \<times> error option" where
  "convert_files label_dir bbox_dir class_id [] fs = (fs, None)"
| "convert_files label_dir bbox_dir class_id (filename # rest) fs =
     (if \<not> endswith filename ''.txt'' then convert_files label_dir bbox_dir class_id rest fs
      else case read_text fs (os_path_join label_dir filename) of
             Inl e \<Rightarrow> (fs, Some e)
           | Inr text \<Rightarrow>
           case bbox_lines class_id (readlines text) of Inl e \<Rightarrow> (fs, Some e) | Inr bl \<Rightarrow>
           case write_text fs (os_path_join bbox_dir filename) (join [CHR 0x0A] bl) of
             Inl e \<Rightarrow> (fs, Some e)
           | Inr fs' \<Rightarrow> convert_files label_dir bbox_dir class_id rest fs')"

definition convert_polygons_to_bboxes ::
  "string \<Rightarrow> string \<Rightarrow> int \<Rightarrow> filesystem \<Rightarrow> filesystem \<times> error option" where
  "convert_polygons_to_bboxes label_dir bbox_dir class_id fs =
     (case makedirs bbox_dir fs of Inl e \<Rightarrow> (fs, Some e)
      | Inr fs0 \<Rightarrow>
          (case listdir fs0 label_dir of Inl e \<Rightarrow> (fs0, Some e)
           | Inr names \<Rightarrow> convert_files label_dir bbox_dir class_id names fs0))"

section \<open>The mask and box extractor\<close>

text \<open>
  An image (a two-dimensional array) is the list of its rows. The two calls into
  OpenCV are parameters of the model:
  \<^item> \<open>fillPoly\<close> stands for \<^verbatim>\<open>cv2.fillPoly(base_mask, [np.array(polygon, dtype=np.int32)], 1)\<close>:
    given the vertices and the shape \<open>(h, w)\<close> it raises or names the pixels
    \<open>(row, column)\<close> it covers; the call writes 1 into these pixels of the mask in place;
  \<^item> \<open>connectedComponentsWithStats\<close> returns the number of labels, the label image
    and the rows \<open>(left, top, width, height, area)\<close> of the statistics.
\<close>

type_synonym image = "nat list list"
type_synonym stat = "int \<times> int \<times> int \<times> int \<times> int"

record cv2 =
  fillPoly :: "(int \<times> int) list \<Rightarrow> nat \<times> nat \<Rightarrow> error + (nat \<times> nat) list"
  connectedComponentsWithStats :: "image \<Rightarrow> nat \<times> image \<times> stat list"

definition zeros :: "nat \<Rightarrow> nat \<Rightarrow> image" where
  "zeros h w = replicate h (replicate w 0)"

definition set_pixels :: "image \<Rightarrow> (nat \<times> nat) list \<Rightarrow> image" where
  "set_pixels img ps =
     map (\<lambda>(r, row). map (\<lambda>(c, v). if (r, c) \<in> set ps then 1 else v) (enumerate 0 row))
       (enumerate 0 img)"

definition py_index :: "'a list \<Rightarrow> nat \<Rightarrow> error + 'a" where
  "py_index xs i = (if i < length xs then Inr (xs ! i) else Inl IndexError)"

text \<open>\<^verbatim>\<open>int(round(c * n))\<close> for a float \<open>c\<close> and an integer \<open>n\<close>.\<close>

definition scale_round :: "pyfloat \<Rightarrow> nat \<Rightarrow> error + int" where
  "scale_round c n = (case float_of_int (int n) of Inl e \<Rightarrow> Inl e
     | Inr fn \<Rightarrow> py_round (fmul c fn))"

text \<open>The loop \<^verbatim>\<open>for i in range(0, len(coords), 2)\<close>, over the list of its indices.\<close>

fun polygon_loop :: "pyfloat list \<Rightarrow> nat \<Rightarrow> nat \<Rightarrow> nat list \<Rightarrow> error + (int \<times> int) list" where
  "polygon_loop coords w h [] = Inr []"
| "polygon_loop coords w h (i # rest) =
     (case py_index coords i of Inl e \<Rightarrow> Inl e | Inr cx \<Rightarrow>
      case scale_round cx w of Inl e \<Rightarrow> Inl e | Inr x \<Rightarrow>
      case py_index coords (i + 1) of Inl e \<Rightarrow> Inl e | Inr cy \<Rightarrow>
      case scale_round cy h of Inl e \<Rightarrow> Inl e | Inr y \<Rightarrow>
      case polygon_loop coords w h rest of Inl e \<Rightarrow> Inl e | Inr p \<Rightarrow> Inr ((x, y) # p))"

definition range2 :: "nat \<Rightarrow> nat list" where
  "range2 n = map (\<lambda>k. 2 * k) [0..<(n + 1) div 2]"

definition build_polygon :: "pyfloat list \<Rightarrow> nat \<Rightarrow> nat \<Rightarrow> error + (int \<times> int) list" where
  "build_polygon coords w h = polygon_loop coords w h (range2 (length coords))"

text \<open>The loop over the lines of the label file, filling the shared mask.\<close>

fun rasterize :: "cv2 \<Rightarrow> nat \<Rightarrow> nat \<Rightarrow> string list \<Rightarrow> image \<Rightarrow> error + image" where
  "rasterize cv h w [] base_mask = Inr base_mask"
| "rasterize cv h w (line # rest) base_mask =
     (case parse_numbers line of Inl e \<Rightarrow> Inl e
      | Inr items \<Rightarrow>
          if length (drop 1 items) < 6 then rasterize cv h w rest base_mask
          else (case build_polygon (drop 1 items) w h of Inl e \<Rightarrow> Inl e
                | Inr polygon \<Rightarrow>
                    (case fillPoly cv polygon (h, w) of Inl e \<Rightarrow> Inl e
                     | Inr ps \<Rightarrow> rasterize cv h w rest (set_pixels base_mask ps))))"

text \<open>The loop \<^verbatim>\<open>for i in range(1, num_labels)\<close>.\<close>

definition component_mask :: "image \<Rightarrow> nat \<Rightarrow> image" where
  "component_mask labels i = map (map (\<lambda>l. if l = i then 1 else 0)) labels"

fun components :: "image \<Rightarrow> stat list \<Rightarrow> nat list \<Rightarrow> error + (image list \<times> int list list)" where
  "components labels stats [] = Inr ([], [])"
| "components labels stats (i # rest) =
     (case py_index stats i of Inl e \<Rightarrow> Inl e
      | Inr (x, y, w_box, h_box, area) \<Rightarrow>
          (case components labels stats rest of Inl e \<Rightarrow> Inl e
           | Inr (masks, boxes) \<Rightarrow>
               Inr (component_mask labels i # masks, [x, y, x + w_box, y + h_box] # boxes)))"

definition extract_masks_and_bboxes ::
  "cv2 \<Rightarrow> filesystem \<Rightarrow> string \<Rightarrow> nat \<times> nat \<Rightarrow> error + (image list \<times> int list list)" where
  "extract_masks_and_bboxes cv fs label_path img_shape =
     (case read_text fs label_path of Inl e \<Rightarrow> Inl e
      | Inr text \<Rightarrow>
          (case rasterize cv (fst img_shape) (snd img_shape) (readlines text)
                  (zeros (fst img_shape) (snd img_shape)) of
             Inl e \<Rightarrow> Inl e
           | Inr base_mask \<Rightarrow>
               (case connectedComponentsWithStats cv base_mask of
                  (num_labels, labels, stats) \<Rightarrow> components labels stats [1..<num_labels])))"


subsection \<open>What the claims say about masks and boxes\<close>

text \<open>The pixels \<open>(row, column)\<close> of an image that hold the value \<open>v\<close>, in raster order.\<close>

definition pixels_of :: "image \<Rightarrow> nat \<Rightarrow> (nat \<times> nat) list" where
  "pixels_of img v =
     concat (map (\<lambda>(r, row). map (\<lambda>(c, x). (r, c)) (filter (\<lambda>(c, x). x = v) (enumerate 0 row)))
       (enumerate 0 img))"

text \<open>The bounding rectangle \<open>(left, top, width, height)\<close> of a non-empty list of pixels.\<close>

definition bounding_rect :: "(nat \<times> nat) list \<Rightarrow> int \<times> int \<times> int \<times> int" where
  "bounding_rect ps =
     (int (Min (snd ` set ps)), int (Min (fst ` set ps)),
      int (Max (snd ` set ps)) - int (Min (snd ` set ps)) + 1,
      int (Max (fst ` set ps)) - int (Min (fst ` set ps)) + 1)"

text \<open>The bounding box of the foreground of a mask in the corner form of the boxes,
  \<open>[x, y, x + width, y + height]\<close>.\<close>

definition mask_bbox :: "image \<Rightarrow> int list" where
  "mask_bbox m = (case bounding_rect (pixels_of m 1) of (x, y, w, h) \<Rightarrow> [x, y, x + w, y + h])"

definition has_shape :: "image \<Rightarrow> nat \<Rightarrow> nat \<Rightarrow> bool" where
  "has_shape img h w = (length img = h \<and> list_all (\<lambda>row. length row = w) img)"

text \<open>
  Modelled from the spec: connected-component labelling is a function of OpenCV, not of
  the repository. The spec (section 4.2 and the glossary) and OpenCV's documentation say
  of its result: the label image has the shape of the input; label 0 is the background,
  that is the zero pixels of the input; every other label below \<open>num_labels\<close> is
  carried by at least one pixel; row \<open>i\<close> of the statistics is the bounding rectangle
  and the area of the pixels labelled \<open>i\<close>. That the pixels of one label are a maximal
  8-connected region is not needed by any property proved here and is left out.
\<close>

definition cc_contract :: "image \<Rightarrow> nat \<times> image \<times> stat list \<Rightarrow> bool" where
  "cc_contract img res =
     (case res of (num_labels, labels, stats) \<Rightarrow>
        0 < num_labels \<and> length stats = num_labels \<and>
        list_all2 (list_all2 (\<lambda>l v. l < num_labels \<and> (l = 0) = (v = 0))) labels img \<and>
        list_all (\<lambda>i. pixels_of labels i \<noteq> [] \<and>
                     (case stats ! i of (x, y, w, h, area) \<Rightarrow>
                        (x, y, w, h) = bounding_rect (pixels_of labels i) \<and>
                        area = int (length (pixels_of labels i))))
          [1..<num_labels])"

text \<open>The pixel-wise AND of two masks, and the test that a mask is all zero.\<close>

definition pixel_and :: "nat \<Rightarrow> nat \<Rightarrow> nat" where
  "pixel_and u v = (if u \<noteq> 0 \<and> v \<noteq> 0 then 1 else 0)"

definition mask_and :: "image \<Rightarrow> image \<Rightarrow> image" where
  "mask_and a b = map2 (map2 pixel_and) a b"

definition all_zero :: "image \<Rightarrow> bool" where
  "all_zero m = list_all (list_all (\<lambda>v. v = 0)) m"

subsection \<open>What the claims say about an emitted record\<close>




text \<open>
  The number that a written field denotes, read from its characters: a run of decimal
  digits; an integer with an optional minus sign; a decimal number with an optional
  minus sign, an integer part, a point and exactly six decimals.
\<close>

fun digits_value :: "nat \<Rightarrow> string \<Rightarrow> nat option" where
  "digits_value acc [] = Some acc"
| "digits_value acc (c # cs) =
     (if 48 \<le> (of_char c :: nat) \<and> (of_char c :: nat) \<le> 57
      then digits_value (10 * acc + (of_char c - 48)) cs else None)"







subsection \<open>What the claims say about a second run\<close>

text \<open>
  A listing of \<^verbatim>\<open>os.listdir\<close> names every entry once, and no name holds a slash.
  The label files are untouched from \<open>fs\<close> to \<open>fs'\<close> when the label directory lists the
  same names and every listed \<^verbatim>\<open>.txt\<close> file reads the same.
\<close>

definition proper_listing :: "filesystem \<Rightarrow> string \<Rightarrow> bool" where
  "proper_listing fs d =
     (case listdir fs d of Inl e \<Rightarrow> True
      | Inr names \<Rightarrow> distinct names \<and> list_all (\<lambda>n. CHR ''/'' \<notin> set n) names)"

definition labels_untouched :: "filesystem \<Rightarrow> string \<Rightarrow> filesystem \<Rightarrow> bool" where
  "labels_untouched fs label_dir fs' =
     (listdir fs' label_dir = listdir fs label_dir \<and>
      (case listdir fs label_dir of Inl e \<Rightarrow> True
       | Inr names \<Rightarrow>
           list_all (\<lambda>n. read_text fs' (os_path_join label_dir n) =
                          read_text fs (os_path_join label_dir n))
             (filter (\<lambda>n. endswith n ''.txt'') names)))"

subsection \<open>A small label file and library results, used to instantiate the theorems\<close>

text \<open>A naming of directories without links: the components joined by slashes.\<close>

definition plain_name :: "bool \<Rightarrow> string list \<Rightarrow> string" where
  "plain_name absolute parts = (if absolute then ''/'' else []) @ join ''/'' parts"

definition label_file :: "string \<Rightarrow> filesystem" where
  "label_file text =
     \<lparr> canonical = plain_name, dirs = [''labels'' \<mapsto> [(''a.txt'', text)]] \<rparr>"

text \<open>The file system of \<open>label_file\<close> with the output directory \<^verbatim>\<open>bbox\<close> and the
  one output file in it.\<close>

definition converted_file :: "string \<Rightarrow> string \<Rightarrow> filesystem" where
  "converted_file text out =
     \<lparr> canonical = plain_name,
       dirs = [''labels'' \<mapsto> [(''a.txt'', text)], ''bbox'' \<mapsto> [(''a.txt'', out)]] \<rparr>"

definition example_cv :: cv2 where
  "example_cv = \<lparr> fillPoly = (\<lambda>polygon shape. Inr [(0, 0), (0, 2)]),
     connectedComponentsWithStats = (\<lambda>img.
       if img = [[1, 0, 1], [0, 0, 0]]
       then (3, [[1, 0, 2], [0, 0, 0]], [(0, 0, 3, 2, 4), (0, 0, 1, 1, 1), (2, 0, 1, 1, 1)])
       else (1, map (map (\<lambda>v. 0)) img, [(0, 0, 0, 0, 0)])) \<rparr>"

section \<open>Facts about the number model\<close>

subsection \<open>Powers of two and the binary logarithm\<close>

lemma pow2_powi: "pow2 e = 2 powi e"
  by (simp add: pow2_def power_int_def field_simps)

lemma pow2_pos [simp]: "0 < pow2 e"
  by (simp add: pow2_powi)

lemma pow2_nonzero [simp]: "pow2 e \<noteq> 0"
  by (simp add: pow2_powi)

lemma pow2_add: "pow2 (a + b) = pow2 a * pow2 b"
  by (simp add: pow2_powi power_int_add)

lemma pow2_mono: "a \<le> b \<Longrightarrow> pow2 a \<le> pow2 b"
  by (simp add: pow2_powi power_int_increasing)

lemma pow2_strict_mono: "a < b \<Longrightarrow> pow2 a < pow2 b"
  by (simp add: pow2_powi power_int_strict_increasing)

lemma pow2_le_iff: "pow2 a \<le> pow2 b \<longleftrightarrow> a \<le> b"
  using pow2_mono pow2_strict_mono by (metis linorder_not_less)

lemma pow2_less_iff: "pow2 a < pow2 b \<longleftrightarrow> a < b"
  using pow2_mono pow2_strict_mono by (metis linorder_not_less)

lemma pow2_nat: "pow2 (int n) = 2 ^ n"
  by (simp add: pow2_def)



lemma bitlen_pow2_bounds:
  assumes "0 < (x::int)"
  shows "pow2 (bitlen x - 1) \<le> of_int x" "of_int x < pow2 (bitlen x)"
proof -
  from assms have b1: "1 \<le> bitlen x" by (auto simp: bitlen_alt_def)
  from bitlen_bounds[OF assms] have "2 ^ nat (bitlen x - 1) \<le> x" "x < 2 ^ nat (bitlen x)"
    by auto
  then have "(of_int (2 ^ nat (bitlen x - 1)) :: rat) \<le> of_int x"
    "(of_int x :: rat) < of_int (2 ^ nat (bitlen x))"
    by (simp_all only: of_int_le_iff of_int_less_iff)
  then show "pow2 (bitlen x - 1) \<le> of_int x" "of_int x < pow2 (bitlen x)"
    using b1 by (simp_all add: pow2_def)
qed

lemma ilog2_bounds:
  assumes "0 < q"
  shows "pow2 (ilog2 q) \<le> q \<and> q < pow2 (ilog2 q + 1)"
proof -
  obtain n d where nd: "quotient_of q = (n, d)" by (cases "quotient_of q")
  then have d: "0 < d" and q: "q = of_int n / of_int d"
    by (auto simp: quotient_of_denom_pos quotient_of_div)
  with assms have n: "0 < n" by (simp add: zero_less_divide_iff)
  define bn where "bn = bitlen n"
  define bd where "bd = bitlen d"
  have bn1: "1 \<le> bn" and bd1: "1 \<le> bd"
    using n d by (auto simp: bn_def bd_def bitlen_alt_def)
  have nb: "pow2 (bn - 1) \<le> of_int n" "of_int n < pow2 bn"
    using bitlen_pow2_bounds[OF n] by (simp_all add: bn_def)
  have db: "pow2 (bd - 1) \<le> of_int d" "of_int d < pow2 bd"
    using bitlen_pow2_bounds[OF d] by (simp_all add: bd_def)
  have dpos: "(0::rat) < of_int d" using d by simp
  have up: "q < pow2 (bn - bd + 1)"
  proof -
    have "of_int n < pow2 bn" by (rule nb)
    also have "pow2 bn = pow2 (bn - bd + 1) * pow2 (bd - 1)"
      by (simp flip: pow2_add)
    also have "\<dots> \<le> pow2 (bn - bd + 1) * of_int d"
      using db(1) by (simp add: mult_left_mono less_imp_le)
    finally show ?thesis using dpos by (simp add: q pos_divide_less_eq)
  qed
  have lo: "pow2 (bn - bd - 1) < q"
  proof -
    have "pow2 (bn - bd - 1) * of_int d < pow2 (bn - bd - 1) * pow2 bd"
      using db(2) by (simp add: mult_strict_left_mono)
    also have "\<dots> = pow2 (bn - 1)" by (simp flip: pow2_add)
    also have "\<dots> \<le> of_int n" by (rule nb)
    finally show ?thesis using dpos by (simp add: q pos_less_divide_eq)
  qed
  show ?thesis
    using up lo by (auto simp: ilog2_def Let_def nd bn_def bd_def less_imp_le)
qed

lemma ilog2_unique:
  assumes "0 < q" "pow2 k \<le> q" "q < pow2 (k + 1)"
  shows "ilog2 q = k"
proof -
  from ilog2_bounds[OF assms(1)] have b: "pow2 (ilog2 q) \<le> q" "q < pow2 (ilog2 q + 1)" by auto
  have "pow2 k < pow2 (ilog2 q + 1)" using assms(2) b(2) by simp
  then have 1: "k < ilog2 q + 1" by (simp add: pow2_less_iff)
  have "pow2 (ilog2 q) < pow2 (k + 1)" using assms(3) b(1) by simp
  then have 2: "ilog2 q < k + 1" by (simp add: pow2_less_iff)
  from 1 2 show ?thesis by simp
qed

subsection \<open>Rounding to the nearest integer and to the nearest float\<close>

text \<open>
  \<open>round_binary64_pos\<close> and \<open>to_float_pos\<close> compute a rounding once the binade of the
  argument is given; \<open>round_binary64_exact\<close> says that a float is its own rounding. The
  facts after them evaluate the literals and operations that the examples below use.
\<close>

lemma floor_rat_numeral: "\<lfloor>(numeral a / numeral b :: rat)\<rfloor> = numeral a div numeral b"
  using floor_divide_of_int_eq[of "numeral a" "numeral b", where ?'a = rat] by simp

lemma round_half_even_of_int [simp]: "round_half_even (of_int n) = n"
  by (simp add: round_half_even_def)

lemma round_half_even_numeral [simp]:
  "round_half_even (numeral n) = numeral n" "round_half_even 0 = 0" "round_half_even 1 = 1"
  using round_half_even_of_int[of "numeral n"] round_half_even_of_int[of 0]
    round_half_even_of_int[of 1] by simp_all



lemma round_binary64_pos:
  assumes "0 < q" "pow2 k \<le> q" "q < pow2 (k + 1)"
  shows "round_binary64 q =
    of_int (round_half_even (q / pow2 (max k (- 1022) - 52))) * pow2 (max k (- 1022) - 52)"
  using assms by (simp add: round_binary64_def ulp_exp_def ilog2_unique[OF assms])

lemma to_float_pos:
  assumes "0 < q" "pow2 k \<le> q" "q < pow2 (k + 1)"
    "r = of_int (round_half_even (q / pow2 (max k (- 1022) - 52))) * pow2 (max k (- 1022) - 52)"
    "r \<le> max_finite" "0 < r"
  shows "to_float neg q = Fin r"
  using assms(5,6) by (simp add: to_float_def round_binary64_pos[OF assms(1,2,3)] flip: assms(4))

text \<open>A value \<open>m * 2^e\<close> with fewer than 54 bits and \<open>e\<close> on the grid is a float.\<close>

lemma round_binary64_exact:
  assumes "\<bar>m\<bar> < 2 ^ 53" "- 1074 \<le> e"
  shows "round_binary64 (of_int m * pow2 e) = of_int m * pow2 e"
proof (cases "m = 0")
  case True
  then show ?thesis by (simp add: round_binary64_def)
next
  case False
  define q where "q = of_int m * pow2 e"
  have q0: "q \<noteq> 0" using False by (simp add: q_def less_imp_neq[OF pow2_pos, symmetric])
  then have aq: "0 < \<bar>q\<bar>" by simp
  have "\<bar>q\<bar> = of_int \<bar>m\<bar> * pow2 e" by (simp add: q_def abs_mult abs_of_pos)
  also have "\<dots> < of_int (2 ^ 53) * pow2 e"
    using assms(1) by (intro mult_strict_right_mono) (simp_all only: of_int_less_iff pow2_pos)
  also have "\<dots> = pow2 53 * pow2 e" by (simp add: pow2_def)
  also have "\<dots> = pow2 (53 + e)" by (simp only: pow2_add)
  finally have "\<bar>q\<bar> < pow2 (53 + e)" .
  with ilog2_bounds[OF aq] have "pow2 (ilog2 \<bar>q\<bar>) < pow2 (53 + e)" by simp
  then have "ilog2 \<bar>q\<bar> < 53 + e" by (simp add: pow2_less_iff)
  define u where "u = ulp_exp \<bar>q\<bar>"
  from \<open>ilog2 \<bar>q\<bar> < 53 + e\<close> assms(2) have u: "u \<le> e" by (simp add: ulp_exp_def u_def)
  define d where "d = nat (e - u)"
  have un: "pow2 u \<noteq> 0" by simp
  have pe: "pow2 e = pow2 (int d) * pow2 u" using u by (simp add: d_def flip: pow2_add)
  have "q / pow2 u = of_int m * pow2 (int d)"
    unfolding q_def pe using un by simp
  also have "\<dots> = of_int (m * 2 ^ d)" by (simp add: pow2_nat)
  finally have "q / pow2 u = of_int (m * 2 ^ d)" .
  then have "round_binary64 q = of_int (m * 2 ^ d) * pow2 u"
    using q0 by (simp only: round_binary64_def round_half_even_of_int if_False flip: u_def)
  also have "\<dots> = of_int m * (pow2 (int d) * pow2 u)" by (simp add: pow2_nat)
  also have "\<dots> = q" by (simp add: q_def pe)
  finally show ?thesis by (simp add: q_def)
qed

lemma round_binary64_int: "\<bar>m\<bar> < 2 ^ 53 \<Longrightarrow> round_binary64 (of_int m) = of_int m"
  using round_binary64_exact[of m 0] by (simp add: pow2_def)

lemmas float_eval = round_half_even_def pow2_def max_finite_def floor_rat_numeral Let_def
lemmas parse_eval = py_float_def float_strip_def take_sign_def to_lower_def
  floatnumber_def digitpart_def is_digit_def digit_val_def exponent_part_def decimal_value_def
  nat_of_digits_def pow10_def
lemmas fmt_eval = scaled6_def fixed6_def round_half_even_def floor_rat_numeral Let_def
  str_nat.simps digit_char_def

lemma float_0_1: "py_float ''0.1'' = Inr (Fin (3602879701896397 / 36028797018963968))"
proof -
  have "to_float False (1 / 10) = Fin (3602879701896397 / 36028797018963968)"
    by (rule to_float_pos[where k = "- 4"]) (simp_all add: float_eval)
  then show ?thesis by (simp add: parse_eval)
qed

lemma float_0_9: "py_float ''0.9'' = Inr (Fin (8106479329266893 / 9007199254740992))"
proof -
  have "to_float False (9 / 10) = Fin (8106479329266893 / 9007199254740992)"
    by (rule to_float_pos[where k = "- 1"]) (simp_all add: float_eval)
  then show ?thesis by (simp add: parse_eval)
qed

lemma float_0_5: "py_float ''0.5'' = Inr (Fin (1 / 2))"
proof -
  have "to_float False (1 / 2) = Fin (1 / 2)"
    by (rule to_float_pos[where k = "- 1"]) (simp_all add: float_eval)
  then show ?thesis by (simp add: parse_eval)
qed

lemma float_0: "py_float ''0'' = Inr (Fin 0)"
  by (simp add: parse_eval to_float_def round_binary64_def max_finite_def)

lemma float_1: "py_float ''1'' = Inr (Fin 1)"
proof -
  have "to_float False 1 = Fin 1"
    by (rule to_float_pos[where k = 0]) (simp_all add: float_eval)
  then show ?thesis by (simp add: parse_eval)
qed

lemma add_01_05: "fadd (Fin (3602879701896397 / 36028797018963968)) (Fin (1 / 2)) = Fin (5404319552844595 / 9007199254740992)"
proof -
  have "to_float False (3602879701896397 / 36028797018963968 + 1 / 2) = Fin (5404319552844595 / 9007199254740992)"
    by (rule to_float_pos[where k = "- 1"]) (simp_all add: float_eval)
  then show ?thesis by (simp add: fadd_def)
qed

lemma add_01_09: "fadd (Fin (3602879701896397 / 36028797018963968)) (Fin (8106479329266893 / 9007199254740992)) = Fin 1"
proof -
  have "to_float False (3602879701896397 / 36028797018963968 + 8106479329266893 / 9007199254740992) = Fin 1"
    by (rule to_float_pos[where k = 0]) (simp_all add: float_eval)
  then show ?thesis by (simp add: fadd_def)
qed

lemma sub_05_01: "fsub (Fin (1 / 2)) (Fin (3602879701896397 / 36028797018963968)) = Fin (3602879701896397 / 9007199254740992)"
proof -
  have "to_float False (1 / 2 - 3602879701896397 / 36028797018963968) = Fin (3602879701896397 / 9007199254740992)"
    by (rule to_float_pos[where k = "- 2"]) (simp_all add: float_eval)
  then show ?thesis by (simp add: fsub_def fadd_def)
qed

lemma sub_09_01: "fsub (Fin (8106479329266893 / 9007199254740992)) (Fin (3602879701896397 / 36028797018963968)) = Fin (3602879701896397 / 4503599627370496)"
proof -
  have "to_float False (8106479329266893 / 9007199254740992 - 3602879701896397 / 36028797018963968) = Fin (3602879701896397 / 4503599627370496)"
    by (rule to_float_pos[where k = "- 1"]) (simp_all add: float_eval)
  then show ?thesis by (simp add: fsub_def fadd_def)
qed

lemma half_06: "fdiv (Fin (5404319552844595 / 9007199254740992)) (Fin 2) = Inr (Fin (5404319552844595 / 18014398509481984))"
proof -
  have "to_float False (5404319552844595 / 9007199254740992 / 2) = Fin (5404319552844595 / 18014398509481984)"
    by (rule to_float_pos[where k = "- 2"]) (simp_all add: float_eval)
  then show ?thesis by (simp add: fdiv_def)
qed

lemma half_1: "fdiv (Fin 1) (Fin 2) = Inr (Fin (1 / 2))"
proof -
  have "to_float False (1 / 2) = Fin (1 / 2)"
    by (rule to_float_pos[where k = "- 1"]) (simp_all add: float_eval)
  then show ?thesis by (simp add: fdiv_def)
qed

lemma fmt_03: "fmt6 (Fin (5404319552844595 / 18014398509481984)) = ''0.300000''"
  by (simp add: fmt_eval)

lemma fmt_04: "fmt6 (Fin (3602879701896397 / 9007199254740992)) = ''0.400000''"
  by (simp add: fmt_eval)

lemma fmt_05: "fmt6 (Fin (1 / 2)) = ''0.500000''"
  by (simp add: fmt_eval)

lemma fmt_08: "fmt6 (Fin (3602879701896397 / 4503599627370496)) = ''0.800000''"
  by (simp add: fmt_eval)

lemma split_c4: "str_split (str_strip ''0 0.1 0.1 0.1 0.5 0.5 0.5 0.5 0.1'') =
    [''0'', ''0.1'', ''0.1'', ''0.1'', ''0.5'', ''0.5'', ''0.5'', ''0.5'', ''0.1'']"
  by (simp add: str_split_def str_strip_def is_space_def)

lemma c4_lines: "bbox_lines 0 [''0 0.1 0.1 0.1 0.5 0.5 0.5 0.5 0.1''] =
   Inr [''0 0.300000 0.300000 0.400000 0.400000'']"
  by (simp add: parse_numbers_def split_c4 float_0 float_0_1 float_0_5 bbox_record_def
      py_min_def py_max_def flt_def fgt_def add_01_05 half_06 sub_05_01 fmt_eval str_int_def)

lemma c1_lines: "bbox_lines 0 [''0 0.1 0.1 0.5 0.5 0.9''] =
   Inr [''0 0.500000 0.300000 0.800000 0.400000'']"
  by (simp add: parse_numbers_def str_split_def str_strip_def is_space_def
      float_0 float_0_1 float_0_5 float_0_9 bbox_record_def
      py_min_def py_max_def flt_def fgt_def add_01_05 add_01_09 half_06 half_1 sub_05_01 sub_09_01
      fmt_eval str_int_def)

subsection \<open>Paths\<close>

lemma split_slash_plain: "CHR ''/'' \<notin> set n \<Longrightarrow> split_slash cur n = [cur @ n]"
  by (induction n arbitrary: cur) auto

lemma split_slash_append:
  "CHR ''/'' \<notin> set n \<Longrightarrow> split_slash cur (xs @ CHR ''/'' # n) = split_slash cur xs @ [n]"
  by (induction xs arbitrary: cur) (simp_all add: split_slash_plain)

lemma join_path:
  assumes "CHR ''/'' \<notin> set n" and "n \<noteq> []"
  shows "path_parts (butlast (split_slash [] (os_path_join d n))) = path_parts (split_slash [] d)"
    and "basename (os_path_join d n) = n"
    and "is_absolute (os_path_join d n) = is_absolute d"
    and "os_path_join d n \<noteq> []"
proof -
  from assms have h: "hd n \<noteq> CHR ''/''" by (cases n) auto
  consider "d = []" | "d \<noteq> []" "last d = CHR ''/''" | "d \<noteq> []" "last d \<noteq> CHR ''/''" by blast
  then have "path_parts (butlast (split_slash [] (os_path_join d n))) = path_parts (split_slash [] d)
      \<and> basename (os_path_join d n) = n \<and> is_absolute (os_path_join d n) = is_absolute d"
  proof cases
    case 1
    with assms h show ?thesis
      by (simp add: os_path_join_def split_slash_plain basename_def path_parts_def is_absolute_def)
  next
    case 2
    then have d: "d = butlast d @ [CHR ''/'']" by (metis append_butlast_last_id)
    have "os_path_join d n = d @ n"
      using 2 h by (simp add: os_path_join_def)
    also have "\<dots> = (butlast d @ [CHR ''/'']) @ n" using d by simp
    finally have j: "os_path_join d n = butlast d @ CHR ''/'' # n" by simp
    have s: "split_slash [] d = split_slash [] (butlast d) @ [[]]"
      using split_slash_append[of "[]" "[]" "butlast d"] d by simp
    have a: "is_absolute (butlast d @ CHR ''/'' # n) = is_absolute d"
      using 2 d by (cases "butlast d") (auto simp: is_absolute_def)
    show ?thesis unfolding j a
      by (simp add: split_slash_append[OF assms(1)] basename_def s path_parts_def)
  next
    case 3
    then have j: "os_path_join d n = d @ CHR ''/'' # n"
      using h by (simp add: os_path_join_def)
    have a: "is_absolute (d @ CHR ''/'' # n) = is_absolute d"
      using 3 by (cases d) (auto simp: is_absolute_def)
    show ?thesis unfolding j a
      by (simp add: split_slash_append[OF assms(1)] basename_def)
  qed
  then show "path_parts (butlast (split_slash [] (os_path_join d n))) = path_parts (split_slash [] d)"
    and "basename (os_path_join d n) = n"
    and "is_absolute (os_path_join d n) = is_absolute d" by simp_all
  from assms(2) show "os_path_join d n \<noteq> []" by (auto simp: os_path_join_def)
qed

lemma parent_at_join:
  "CHR ''/'' \<notin> set n \<Longrightarrow> n \<noteq> [] \<Longrightarrow> parent_at fs (os_path_join d n) = dir_at fs d"
  by (simp add: parent_at_def dir_at_def join_path)

lemma read_join:
  assumes "CHR ''/'' \<notin> set n" and "n \<noteq> []"
  shows "read_text fs (os_path_join d n) =
     (case dirs fs (dir_at fs d) of None \<Rightarrow> Inl OSError
      | Some files \<Rightarrow> (case map_of files n of None \<Rightarrow> Inl OSError | Some text \<Rightarrow> Inr text))"
  using assms by (simp add: read_text_def parent_at_join join_path split: option.splits)

lemma write_join:
  assumes "CHR ''/'' \<notin> set n" and "n \<noteq> []"
  shows "write_text fs (os_path_join d n) text =
     (case dirs fs (dir_at fs d) of None \<Rightarrow> Inl OSError
      | Some files \<Rightarrow> Inr (fs\<lparr>dirs := (dirs fs)(dir_at fs d \<mapsto> AList.update n text files)\<rparr>))"
  using assms by (simp add: write_text_def parent_at_join join_path split: option.splits)

lemma txt_nonempty: "endswith n ''.txt'' \<Longrightarrow> n \<noteq> []"
  by (auto simp: endswith_def)

lemmas path_eval = read_text_def write_text_def makedirs_def listdir_def dir_at_def
  parent_at_def basename_def path_parts_def is_absolute_def os_path_join_def plain_name_def
  label_file_def

lemma label_file_read: "read_text (label_file content) ''labels/a.txt'' = Inr content"
  by (simp add: path_eval)

subsection \<open>Exact products, and a run of the extractor\<close>

lemma to_float_exact:
  assumes "\<bar>m\<bar> < 2 ^ 53" "- 1074 \<le> e" "m \<noteq> 0" "\<bar>of_int m * pow2 e\<bar> \<le> max_finite"
  shows "to_float neg (of_int m * pow2 e) = Fin (of_int m * pow2 e)"
  using assms(3,4) by (simp add: to_float_def round_binary64_exact[OF assms(1,2)] abs_le_iff)

lemma float_of_int_small: "\<bar>n\<bar> < 2 ^ 53 \<Longrightarrow> float_of_int n = Inr (Fin (of_int n))"
proof -
  assume a: "\<bar>n\<bar> < 2 ^ 53"
  then have "\<bar>rat_of_int n\<bar> \<le> of_int (2 ^ 53)" unfolding of_int_abs[symmetric] of_int_le_iff by simp
  also have "\<dots> \<le> max_finite" by (simp add: max_finite_def)
  finally show ?thesis using a by (simp add: float_of_int_def round_binary64_int)
qed

lemma ex_two: "extract_masks_and_bboxes example_cv (label_file ''0 0 0 1 0 1 1'') ''labels/a.txt'' (2, 3) =
   Inr ([[[1, 0, 0], [0, 0, 0]], [[0, 0, 1], [0, 0, 0]]], [[0, 0, 1, 1], [2, 0, 3, 1]])"
proof -
  have f3: "fmul (Fin 1) (Fin 3) = Fin 3"
    using to_float_exact[of 3 0 False] by (simp add: fmul_def pow2_def max_finite_def)
  have f1: "fmul (Fin 1) (Fin 2) = Fin 2"
    using to_float_exact[of 2 0 False] by (simp add: fmul_def pow2_def max_finite_def)
  have f0: "fmul (Fin 0) (Fin 3) = Fin 0" "fmul (Fin 0) (Fin 2) = Fin 0"
    by (simp_all add: fmul_def to_float_def round_binary64_def max_finite_def)
  have r: "round_half_even 3 = 3" "round_half_even 2 = 2" "round_half_even 0 = 0"
    by (simp_all add: round_half_even_def)
  have poly: "build_polygon [Fin 0, Fin 0, Fin 1, Fin 0, Fin 1, Fin 1] 3 2 = Inr [(0, 0), (3, 0), (3, 2)]"
    by (simp add: build_polygon_def range2_def upt_rec py_index_def scale_round_def
        float_of_int_small f3 f1 f0 r)
  have z: "zeros 2 3 = [[0, 0, 0], [0, 0, 0]]"
    by (simp add: zeros_def numeral_eq_Suc)
  have sp: "set_pixels [[0, 0, 0], [0, 0, 0]] [(0, 0), (0, 2)] = [[1, 0, 1], [0, 0, 0]]"
    by (simp add: set_pixels_def)
  show ?thesis
    by (simp add: extract_masks_and_bboxes_def label_file_read readlines_def
        parse_numbers_def str_split_def str_strip_def is_space_def float_0 float_1 poly
        example_cv_def z sp upt_rec component_mask_def py_index_def)
qed

section \<open>The properties of the two functions\<close>

subsection \<open>Masks of different components\<close>

lemma components_masks:
  "components labels stats is = Inr (masks, boxes) \<Longrightarrow>
     masks = map (component_mask labels) is \<and> length boxes = length is"
proof (induction "is" arbitrary: masks boxes)
  case Nil
  then show ?case by simp
next
  case (Cons i rest)
  then show ?case by (auto split: sum.splits prod.splits)
qed

lemma extract_Inr:
  assumes "extract_masks_and_bboxes cv fs label_path img_shape = Inr (masks, boxes)"
  obtains content base_mask num_labels labels stats where
    "read_text fs label_path = Inr content"
    "rasterize cv (fst img_shape) (snd img_shape) (readlines content)
       (zeros (fst img_shape) (snd img_shape)) = Inr base_mask"
    "connectedComponentsWithStats cv base_mask = (num_labels, labels, stats)"
    "components labels stats [1..<num_labels] = Inr (masks, boxes)"
  using assms by (auto simp: extract_masks_and_bboxes_def split: sum.splits prod.splits)

lemma mask_and_component:
  "mask_and (component_mask labels a) (component_mask labels b) =
     map (map (\<lambda>l. pixel_and (if l = a then 1 else 0) (if l = b then 1 else 0))) labels"
proof -
  have row: "map2 pixel_and (map f r) (map g r) = map (\<lambda>l. pixel_and (f l) (g l)) r"
    for f g and r :: "nat list"
    by (induction r) simp_all
  show ?thesis
    unfolding mask_and_def component_mask_def
    by (induction labels) (simp_all add: row)
qed

lemma component_masks_disjoint:
  assumes "a \<noteq> b"
  shows "all_zero (mask_and (component_mask labels a) (component_mask labels b))"
proof -
  have "pixel_and (if l = a then 1 else 0) (if l = b then 1 else 0) = 0" for l
    using assms by (simp add: pixel_and_def)
  then show ?thesis
    unfolding mask_and_component all_zero_def by (simp add: list_all_iff)
qed

text \<open>
  Claim C7. The masks returned by \<open>extract_masks_and_bboxes\<close> are pairwise disjoint:
  for two different indices the pixel-wise AND of the two masks is all zero (and the two
  masks have the same shape, so the AND covers every pixel). This needs nothing of the
  library: two masks select two different labels of one label image.
\<close>

theorem masks_pairwise_disjoint:
  assumes "extract_masks_and_bboxes cv fs label_path img_shape = Inr (masks, boxes)"
    and "i < length masks" and "j < length masks" and "i \<noteq> j"
  shows "all_zero (mask_and (masks ! i) (masks ! j)) \<and>
         map length (masks ! i) = map length (masks ! j)"
proof -
  from assms(1) obtain num_labels labels stats where
    c: "components labels stats [1..<num_labels] = Inr (masks, boxes)"
    by (rule extract_Inr)
  then have m: "masks = map (component_mask labels) [1..<num_labels]"
    by (simp add: components_masks)
  with assms(2,3) have ij: "i < num_labels - 1" "j < num_labels - 1" by simp_all
  then have "masks ! i = component_mask labels (1 + i)" "masks ! j = component_mask labels (1 + j)"
    by (simp_all add: m)
  with assms(4) show ?thesis
    by (simp add: component_masks_disjoint) (simp add: component_mask_def)
qed

theorem masks_pairwise_disjoint_witness:
  "all_zero (mask_and [[1, 0, 0], [0, 0, 0]] [[0, 0, 1], [0, 0, 0]]) \<and>
   map length [[1::nat, 0, 0], [0, 0, 0]] = map length [[0::nat, 0, 1], [0, 0, 0]]"
  using masks_pairwise_disjoint[OF ex_two, of 0 1] by simp

subsection \<open>The converter on single lines\<close>

text \<open>
  Claim C1 says that a line with fewer than six values after the class id gives no
  record. The test of the converter is \<^verbatim>\<open>len(parts) < 6\<close> with the class id counted
  in \<open>parts\<close>, so a line with exactly five values after the class id passes it: the
  file below, whose only line has six tokens, gives one record.
\<close>

theorem five_values_emit_a_record:
  "convert_polygons_to_bboxes ''labels'' ''bbox'' 0 (label_file ''0 0.1 0.1 0.5 0.5 0.9'') =
     (converted_file ''0 0.1 0.1 0.5 0.5 0.9'' ''0 0.500000 0.300000 0.800000 0.400000'', None)"
  by (simp add: convert_polygons_to_bboxes_def path_eval converted_file_def
      endswith_def readlines_def c1_lines del: bbox_lines.simps)

lemma c4_lines_3: "bbox_lines 3 [''0 0.1 0.1 0.1 0.5 0.5 0.5 0.5 0.1''] =
   Inr [''3 0.300000 0.300000 0.400000 0.400000'']"
  by (simp add: parse_numbers_def split_c4 float_0 float_0_1 float_0_5 bbox_record_def
      py_min_def py_max_def flt_def fgt_def add_01_05 half_06 sub_05_01 fmt_eval str_int_def)

lemma square_run:
  "convert_polygons_to_bboxes ''labels'' ''bbox'' 0
     (label_file ''0 0.1 0.1 0.1 0.5 0.5 0.5 0.5 0.1'') =
     (converted_file ''0 0.1 0.1 0.1 0.5 0.5 0.5 0.5 0.1'' ''0 0.300000 0.300000 0.400000 0.400000'', None)"
  by (simp add: convert_polygons_to_bboxes_def path_eval converted_file_def
      endswith_def readlines_def c4_lines del: bbox_lines.simps)

lemma square_run_3:
  "convert_polygons_to_bboxes ''labels'' ''bbox'' 3
     (label_file ''0 0.1 0.1 0.1 0.5 0.5 0.5 0.5 0.1'') =
     (converted_file ''0 0.1 0.1 0.1 0.5 0.5 0.5 0.5 0.1'' ''3 0.300000 0.300000 0.400000 0.400000'', None)"
  by (simp add: convert_polygons_to_bboxes_def path_eval converted_file_def
      endswith_def readlines_def c4_lines_3 del: bbox_lines.simps)

text \<open>
  Claim C4. For the single input line \<^verbatim>\<open>0 0.1 0.1 0.1 0.5 0.5 0.5 0.5 0.1\<close> and the
  class id 0 the converter writes exactly the line
  \<^verbatim>\<open>0 0.300000 0.300000 0.400000 0.400000\<close>, without a line feed after it, and raises
  nothing. The class id written is the argument, not the one of the line: with the
  argument 3 the same line gives \<^verbatim>\<open>3 0.300000 0.300000 0.400000 0.400000\<close>. The
  converter takes no image dimensions at all.
\<close>

theorem square_scenario:
  "convert_polygons_to_bboxes ''labels'' ''bbox'' 0
     (label_file ''0 0.1 0.1 0.1 0.5 0.5 0.5 0.5 0.1'') =
     (converted_file ''0 0.1 0.1 0.1 0.5 0.5 0.5 0.5 0.1'' ''0 0.300000 0.300000 0.400000 0.400000'', None) \<and>
   convert_polygons_to_bboxes ''labels'' ''bbox'' 3
     (label_file ''0 0.1 0.1 0.1 0.5 0.5 0.5 0.5 0.1'') =
     (converted_file ''0 0.1 0.1 0.1 0.5 0.5 0.5 0.5 0.1'' ''3 0.300000 0.300000 0.400000 0.400000'', None)"
  using square_run square_run_3 by (rule conjI)

subsection \<open>The extractor on an odd number of coordinates\<close>

text \<open>
  Claim C9 says that the loop pairing \<^verbatim>\<open>coords[i]\<close> with \<^verbatim>\<open>coords[i+1]\<close> stays
  in bounds for every line that passes the length test. A line with seven coordinates
  passes the test, and the fourth turn of the loop reads \<^verbatim>\<open>coords[7]\<close>: the extractor
  raises \<^verbatim>\<open>IndexError\<close>, whatever the library does.
\<close>

theorem odd_count_raises:
  "extract_masks_and_bboxes cv (label_file ''0 0 0 1 0 1 1 0.5'') ''labels/a.txt'' (2, 3)
     = Inl IndexError"
proof -
  have f3: "fmul (Fin 1) (Fin 3) = Fin 3"
    using to_float_exact[of 3 0 False] by (simp add: fmul_def pow2_def max_finite_def)
  have f1: "fmul (Fin 1) (Fin 2) = Fin 2"
    using to_float_exact[of 2 0 False] by (simp add: fmul_def pow2_def max_finite_def)
  have fh: "fmul (Fin (1 / 2)) (Fin 3) = Fin (3 / 2)"
    using to_float_exact[of 3 "- 1" False] by (simp add: fmul_def pow2_def max_finite_def)
  have f0: "fmul (Fin 0) (Fin 3) = Fin 0" "fmul (Fin 0) (Fin 2) = Fin 0"
    by (simp_all add: fmul_def to_float_def round_binary64_def max_finite_def)
  have r: "round_half_even 3 = 3" "round_half_even 2 = 2" "round_half_even 0 = 0"
     "round_half_even (3 / 2) = 2"
    by (simp_all add: round_half_even_def floor_rat_numeral)
  have poly: "build_polygon [Fin 0, Fin 0, Fin 1, Fin 0, Fin 1, Fin 1, Fin (1 / 2)] 3 2 = Inl IndexError"
    by (simp add: build_polygon_def range2_def upt_rec py_index_def scale_round_def
        float_of_int_small f3 f1 f0 fh r)
  show ?thesis
    by (simp add: extract_masks_and_bboxes_def label_file_read readlines_def
        parse_numbers_def str_split_def str_strip_def is_space_def float_0 float_1 float_0_5 poly)
qed

subsection \<open>Exceptions of the two line loops\<close>

lemma py_float_error: "py_float s = Inl e \<Longrightarrow> e = ValueError"
  by (auto simp: py_float_def Let_def split: prod.splits option.splits if_splits)

lemma map_raise_error:
  "x \<in> set xs \<Longrightarrow> f x = Inl e \<Longrightarrow> \<exists>e'. map_raise f xs = Inl e'"
  by (induction xs) (auto split: sum.splits)

lemma map_raise_py_float_error: "map_raise py_float ts = Inl e \<Longrightarrow> e = ValueError"
  by (induction ts arbitrary: e) (auto split: sum.splits dest: py_float_error)

lemma parse_numbers_error: "parse_numbers line = Inl e \<Longrightarrow> e = ValueError"
  unfolding parse_numbers_def by (rule map_raise_py_float_error)

lemma parse_numbers_bad:
  assumes "tok \<in> set (str_split (str_strip line))" "py_float tok = Inl e"
  shows "parse_numbers line = Inl ValueError"
proof -
  from assms map_raise_error[of tok "str_split (str_strip line)" py_float e]
  obtain e' where "parse_numbers line = Inl e'"
    by (auto simp: parse_numbers_def)
  then show ?thesis using parse_numbers_error by blast
qed

lemma every_other_Nil [simp]: "every_other xs = [] \<longleftrightarrow> xs = []"
  by (cases xs rule: every_other.cases) simp_all

lemma py_min_Inr: "xs \<noteq> [] \<Longrightarrow> \<exists>m. py_min xs = Inr m"
  by (cases xs) (simp_all add: py_min_def)

lemma py_max_Inr: "xs \<noteq> [] \<Longrightarrow> \<exists>m. py_max xs = Inr m"
  by (cases xs) (simp_all add: py_max_def)

lemma fdiv_two: "\<exists>c. fdiv x (Fin 2) = Inr c"
  by (simp add: fdiv_def)

lemma bbox_record_total:
  assumes "6 \<le> length parts"
  shows "\<exists>r. bbox_record class_id parts = Inr r"
proof -
  from assms have x: "every_other (drop 1 parts) \<noteq> []" and y: "every_other (drop 1 (drop 1 parts)) \<noteq> []"
    by auto
  from py_min_Inr[OF x] py_max_Inr[OF x] py_min_Inr[OF y] py_max_Inr[OF y]
  obtain a b c d where m: "py_min (every_other (drop 1 parts)) = Inr a"
    "py_max (every_other (drop 1 parts)) = Inr b"
    "py_min (every_other (drop 1 (drop 1 parts))) = Inr c"
    "py_max (every_other (drop 1 (drop 1 parts))) = Inr d" by blast
  from fdiv_two[of "fadd a b"] fdiv_two[of "fadd c d"] obtain xc yc where
    "fdiv (fadd a b) (Fin 2) = Inr xc" "fdiv (fadd c d) (Fin 2) = Inr yc" by blast
  with m show ?thesis by (simp add: bbox_record_def Let_def)
qed

lemma bbox_lines_bad:
  assumes "line \<in> set lines" "parse_numbers line = Inl e"
  shows "bbox_lines class_id lines = Inl ValueError"
  using assms
proof (induction lines)
  case Nil
  then show ?case by simp
next
  case (Cons l rest)
  show ?case
  proof (cases "parse_numbers l")
    case (Inl e')
    then show ?thesis using parse_numbers_error[OF Inl] by simp
  next
    case (Inr parts)
    with Cons.prems have "line \<in> set rest" by auto
    with Cons have ih: "bbox_lines class_id rest = Inl ValueError" by simp
    show ?thesis
    proof (cases "length parts < 6")
      case True
      with Inr ih show ?thesis by simp
    next
      case False
      then obtain r where "bbox_record class_id parts = Inr r"
        using bbox_record_total[of parts class_id] by auto
      with Inr ih False show ?thesis by simp
    qed
  qed
qed

lemma rasterize_bad:
  assumes "line \<in> set lines" "parse_numbers line = Inl e"
  shows "\<exists>e'. rasterize cv h w lines m = Inl e'"
  using assms
proof (induction lines arbitrary: m)
  case Nil
  then show ?case by simp
next
  case (Cons l rest)
  show ?case
  proof (cases "parse_numbers l")
    case (Inl e')
    then show ?thesis by simp
  next
    case (Inr items)
    with Cons.prems have "line \<in> set rest" by auto
    with Cons have ih: "\<exists>e'. rasterize cv h w rest m' = Inl e'" for m' by simp
    with Inr show ?thesis by (auto split: sum.splits)
  qed
qed

text \<open>
  Claim C2 as the code has it. Nothing catches the \<^verbatim>\<open>ValueError\<close> that
  \<^verbatim>\<open>float\<close> raises on a token that is no number. When the converter's loop over the
  files reaches a label file with such a line it raises \<^verbatim>\<open>ValueError\<close>: the output
  file of that label file is not written and the remaining files are not processed. The
  extractor raises on such a file too and returns neither masks nor boxes.
\<close>

theorem non_numeric_token_raises:
  assumes "read_text fs (os_path_join label_dir filename) = Inr content"
    and "line \<in> set (readlines content)"
    and "tok \<in> set (str_split (str_strip line))"
    and "py_float tok = Inl ValueError"
    and "endswith filename ''.txt''"
  shows "convert_files label_dir bbox_dir class_id (filename # rest) fs = (fs, Some ValueError) \<and>
    (\<exists>e. extract_masks_and_bboxes cv fs (os_path_join label_dir filename) img_shape = Inl e)"
proof -
  have p: "parse_numbers line = Inl ValueError"
    using assms(3,4) by (rule parse_numbers_bad)
  have "bbox_lines class_id (readlines content) = Inl ValueError"
    using assms(2) p by (rule bbox_lines_bad)
  then have 1: "convert_files label_dir bbox_dir class_id (filename # rest) fs = (fs, Some ValueError)"
    using assms(1,5) by simp
  from rasterize_bad[OF assms(2) p] obtain e where
    "rasterize cv (fst img_shape) (snd img_shape) (readlines content)
       (zeros (fst img_shape) (snd img_shape)) = Inl e" by blast
  then have "extract_masks_and_bboxes cv fs (os_path_join label_dir filename) img_shape = Inl e"
    using assms(1) by (simp add: extract_masks_and_bboxes_def)
  with 1 show ?thesis by blast
qed

lemma bad_file_lines:
  "readlines (''0 0 abc\<newline>0 0 0 1 0 1 1'') = [''0 0 abc\<newline>'', ''0 0 0 1 0 1 1'']"
  by (simp add: readlines_def)

lemma bad_line_tokens: "str_split (str_strip (''0 0 abc\<newline>'')) = [''0'', ''0'', ''abc'']"
  by (simp add: str_split_def str_strip_def is_space_def)

lemma float_abc: "py_float ''abc'' = Inl ValueError"
  by (simp add: parse_eval)

theorem non_numeric_token_raises_witness:
  "read_text (label_file (''0 0 abc\<newline>0 0 0 1 0 1 1'')) ''labels/a.txt''
     = Inr (''0 0 abc\<newline>0 0 0 1 0 1 1'') \<and>
   ''0 0 abc\<newline>'' \<in> set (readlines (''0 0 abc\<newline>0 0 0 1 0 1 1'')) \<and>
   ''abc'' \<in> set (str_split (str_strip (''0 0 abc\<newline>''))) \<and>
   py_float ''abc'' = Inl ValueError \<and> endswith ''a.txt'' ''.txt'' \<and>
   convert_files ''labels'' ''bbox'' 0 [''a.txt''] (label_file (''0 0 abc\<newline>0 0 0 1 0 1 1''))
     = (label_file (''0 0 abc\<newline>0 0 0 1 0 1 1''), Some ValueError) \<and>
   (\<exists>e. extract_masks_and_bboxes example_cv (label_file (''0 0 abc\<newline>0 0 0 1 0 1 1''))
      ''labels/a.txt'' (2, 3) = Inl e)"
proof -
  have 1: "read_text (label_file (''0 0 abc\<newline>0 0 0 1 0 1 1'')) ''labels/a.txt''
     = Inr (''0 0 abc\<newline>0 0 0 1 0 1 1'')"
    by (rule label_file_read)
  have 2: "''0 0 abc\<newline>'' \<in> set (readlines (''0 0 abc\<newline>0 0 0 1 0 1 1''))"
    unfolding bad_file_lines by simp
  have 3: "''abc'' \<in> set (str_split (str_strip (''0 0 abc\<newline>'')))"
    unfolding bad_line_tokens by simp
  have 5: "endswith ''a.txt'' ''.txt''" by (simp add: endswith_def)
  have j: "os_path_join ''labels'' ''a.txt'' = ''labels/a.txt''"
    by (simp add: os_path_join_def)
  from non_numeric_token_raises[where label_dir = "''labels''" and filename = "''a.txt''"
      and bbox_dir = "''bbox''" and class_id = 0 and rest = "[]" and cv = example_cv
      and img_shape = "(2, 3)", unfolded j, OF 1 2 3 float_abc 5]
  show ?thesis using 1 2 3 5 float_abc by blast
qed

text \<open>
  Claim C2 as stated fails: in the file below the first line has the token \<^verbatim>\<open>abc\<close> and
  the second line is a valid triangle. Neither function skips the first line and goes on:
  the converter raises \<^verbatim>\<open>ValueError\<close> and leaves the output directory empty, and the
  extractor raises \<^verbatim>\<open>ValueError\<close>.
\<close>

theorem non_numeric_token_counterexample:
  "snd (convert_polygons_to_bboxes ''labels'' ''bbox'' 0
        (label_file (''0 0 abc\<newline>0 0 0 1 0 1 1''))) = Some ValueError \<and>
   dirs (fst (convert_polygons_to_bboxes ''labels'' ''bbox'' 0
        (label_file (''0 0 abc\<newline>0 0 0 1 0 1 1'')))) ''bbox'' = Some [] \<and>
   extract_masks_and_bboxes example_cv (label_file (''0 0 abc\<newline>0 0 0 1 0 1 1''))
      ''labels/a.txt'' (2, 3) = Inl ValueError"
proof -
  have p: "parse_numbers (''0 0 abc\<newline>'') = Inl ValueError"
    by (simp add: parse_numbers_def bad_line_tokens float_0 float_abc)
  have b: "bbox_lines 0 (readlines (''0 0 abc\<newline>0 0 0 1 0 1 1'')) = Inl ValueError"
    unfolding bad_file_lines by (simp add: p)
  have r: "rasterize example_cv 2 3 (readlines (''0 0 abc\<newline>0 0 0 1 0 1 1'')) m
      = Inl ValueError" for m
    unfolding bad_file_lines by (simp add: p)
  show ?thesis
    by (simp add: convert_polygons_to_bboxes_def path_eval
        endswith_def extract_masks_and_bboxes_def b r
        del: bbox_lines.simps rasterize.simps)
qed

subsection \<open>The two length tests in general\<close>

text \<open>
  The converter counts the class id: a line whose tokens are all numbers gives no record
  when it has fewer than six tokens, and exactly one record otherwise, so from five
  values after the class id on.
\<close>

lemma converter_length_filter:
  assumes "parse_numbers line = Inr parts"
  shows "(length parts < 6 \<longrightarrow> bbox_lines class_id [line] = Inr []) \<and>
         (6 \<le> length parts \<longrightarrow> (\<exists>r. bbox_lines class_id [line] = Inr [r]))"
proof (cases "length parts < 6")
  case True
  with assms show ?thesis by simp
next
  case False
  then obtain r where "bbox_record class_id parts = Inr r"
    using bbox_record_total[of parts class_id] by auto
  with assms False show ?thesis by simp
qed

text \<open>
  The extractor pairs \<^verbatim>\<open>coords[i]\<close> with \<^verbatim>\<open>coords[i+1]\<close>. With an odd number of
  coordinates the last turn of the loop has no partner, and the loop raises whatever the
  values are; with an even number every index it reads exists.
\<close>

lemma polygon_loop_out_of_range:
  assumes "i \<in> set indices" "length coords \<le> i + 1"
  shows "\<exists>e. polygon_loop coords w h indices = Inl e"
  using assms
proof (induction indices)
  case Nil
  then show ?case by simp
next
  case (Cons j rest)
  show ?case
  proof (cases "j = i")
    case True
    with Cons.prems(2) have "py_index coords (j + 1) = Inl IndexError"
      by (simp add: py_index_def)
    then show ?thesis by (simp split: sum.splits)
  next
    case False
    with Cons have "\<exists>e. polygon_loop coords w h rest = Inl e" by simp
    then show ?thesis by (auto split: sum.splits)
  qed
qed

lemma odd_count_never_returns:
  assumes "odd (length coords)"
  shows "\<exists>e. build_polygon coords w h = Inl e"
proof -
  define n where "n = length coords"
  from assms obtain k where k: "n = 2 * k + 1" unfolding n_def by (auto elim: oddE)
  have "2 * k \<in> set (range2 n)" by (auto simp: range2_def k)
  moreover have "n \<le> 2 * k + 1" by (simp add: k)
  ultimately show ?thesis
    unfolding build_polygon_def n_def[symmetric]
    using polygon_loop_out_of_range[of "2 * k" "range2 n" coords w h] by (simp add: n_def)
qed

lemma even_count_in_range:
  assumes "even (length coords)" "i \<in> set (range2 (length coords))"
  shows "i < length coords \<and> i + 1 < length coords"
proof -
  from assms(1) obtain k where k: "length coords = 2 * k" by (auto elim: evenE)
  from assms(2) show ?thesis by (auto simp: range2_def k)
qed

subsection \<open>Pixels, shapes and the labelling contract\<close>

lemma row_pixels_iff:
  "(r', c) \<in> set (map (\<lambda>(c, x). (r, c)) (filter (\<lambda>(c, x). x = v) (enumerate n row))) \<longleftrightarrow>
     r' = r \<and> n \<le> c \<and> c < n + length row \<and> row ! (c - n) = v"
  by (auto simp: in_set_enumerate_eq image_iff)

lemma pixels_from_iff:
  "(r, c) \<in> set (concat (map (\<lambda>(r, row). map (\<lambda>(c, x). (r, c))
        (filter (\<lambda>(c, x). x = v) (enumerate 0 row))) (enumerate n img))) \<longleftrightarrow>
     n \<le> r \<and> r < n + length img \<and> c < length (img ! (r - n)) \<and> img ! (r - n) ! c = v"
proof (induction img arbitrary: n)
  case Nil
  then show ?case by simp
next
  case (Cons row img)
  have "(n \<le> r \<and> r < n + length (row # img) \<and> c < length ((row # img) ! (r - n)) \<and>
         (row # img) ! (r - n) ! c = v) \<longleftrightarrow>
        (r = n \<and> c < length row \<and> row ! c = v) \<or>
        (Suc n \<le> r \<and> r < Suc n + length img \<and> c < length (img ! (r - Suc n)) \<and>
         img ! (r - Suc n) ! c = v)"
    by (cases "r = n") (auto simp: nth_Cons' Suc_diff_le)
  then show ?case
    using Cons.IH[of "Suc n"] row_pixels_iff[of r c n v 0 row] by auto
qed

lemma pixels_of_iff:
  "(r, c) \<in> set (pixels_of img v) \<longleftrightarrow> r < length img \<and> c < length (img ! r) \<and> img ! r ! c = v"
  unfolding pixels_of_def using pixels_from_iff[of r c v 0 img] by simp

lemma row_pixels_component:
  "map (\<lambda>(c, x). (r, c)) (filter (\<lambda>(c, x). x = 1)
      (enumerate n (map (\<lambda>l. if l = i then 1 else (0::nat)) row))) =
   map (\<lambda>(c, x). (r, c)) (filter (\<lambda>(c, x). x = i) (enumerate n row))"
  by (induction row arbitrary: n) (simp_all del: One_nat_def)

lemma pixels_from_component:
  "concat (map (\<lambda>(r, row). map (\<lambda>(c, x). (r, c)) (filter (\<lambda>(c, x). x = 1) (enumerate 0 row)))
      (enumerate n (map (map (\<lambda>l. if l = i then 1 else (0::nat))) labels))) =
   concat (map (\<lambda>(r, row). map (\<lambda>(c, x). (r, c)) (filter (\<lambda>(c, x). x = i) (enumerate 0 row)))
      (enumerate n labels))"
  by (induction labels arbitrary: n) (simp_all add: row_pixels_component del: One_nat_def)

lemma pixels_of_component_mask: "pixels_of (component_mask labels i) 1 = pixels_of labels i"
  unfolding pixels_of_def component_mask_def by (rule pixels_from_component)

lemma has_shape_zeros: "has_shape (zeros h w) h w"
  by (simp add: has_shape_def zeros_def list_all_iff)

lemma has_shape_set_pixels: "has_shape img h w \<Longrightarrow> has_shape (set_pixels img ps) h w"
  by (auto simp: has_shape_def set_pixels_def list_all_iff in_set_enumerate_eq)

lemma rasterize_shape:
  "rasterize cv h w lines m = Inr m' \<Longrightarrow> has_shape m h w \<Longrightarrow> has_shape m' h w"
proof (induction lines arbitrary: m)
  case Nil
  then show ?case by simp
next
  case (Cons l rest)
  then show ?case
    by (auto split: sum.splits if_splits intro: has_shape_set_pixels)
qed

lemma has_shape_component_mask:
  "has_shape labels h w \<Longrightarrow> has_shape (component_mask labels i) h w"
  by (simp add: has_shape_def component_mask_def list_all_iff)

lemma component_mask_values:
  "row \<in> set (component_mask labels i) \<Longrightarrow> v \<in> set row \<Longrightarrow> v = 0 \<or> v = 1"
  by (auto simp: component_mask_def)

lemma contract_shape:
  assumes "list_all2 (list_all2 P) labels img" "has_shape img h w"
  shows "has_shape labels h w"
proof -
  have len: "length labels = length img" using assms(1) by (rule list_all2_lengthD)
  have "length row = w" if "row \<in> set labels" for row
  proof -
    from that obtain k where k: "k < length labels" "labels ! k = row"
      by (auto simp: in_set_conv_nth)
    with assms(1) have "list_all2 P row (img ! k)" by (auto dest: list_all2_nthD)
    then have "length row = length (img ! k)" by (rule list_all2_lengthD)
    moreover have "img ! k \<in> set img" using k len by simp
    ultimately show ?thesis using assms(2) by (simp add: has_shape_def list_all_iff)
  qed
  with len assms(2) show ?thesis by (simp add: has_shape_def list_all_iff)
qed

lemma components_ok:
  assumes "\<forall>i\<in>set is. i < length stats"
  shows "components labels stats is =
     Inr (map (component_mask labels) is,
          map (\<lambda>i. case stats ! i of (x, y, w_box, h_box, area) \<Rightarrow> [x, y, x + w_box, y + h_box]) is)"
  using assms by (induction "is") (auto simp: py_index_def split: prod.splits)

lemma rasterize_skipped:
  assumes "\<forall>line\<in>set lines. \<exists>items. parse_numbers line = Inr items \<and> length (drop 1 items) < 6"
  shows "rasterize cv h w lines m = Inr m"
  using assms by (induction lines) auto

lemma contract_zeros:
  assumes "cc_contract (zeros h w) (num_labels, labels, stats)"
  shows "num_labels = 1"
proof (rule ccontr)
  assume "num_labels \<noteq> 1"
  with assms have "1 \<in> set [1..<num_labels]" by (auto simp: cc_contract_def)
  with assms have "pixels_of labels 1 \<noteq> []" by (auto simp: cc_contract_def list_all_iff)
  then obtain r c where "(r, c) \<in> set (pixels_of labels 1)"
    by (cases "pixels_of labels 1") auto
  then have rc: "r < length labels" "c < length (labels ! r)" "labels ! r ! c = 1"
    by (simp_all add: pixels_of_iff)
  from assms have a: "list_all2 (list_all2 (\<lambda>l v. l < num_labels \<and> (l = 0) = (v = 0))) labels (zeros h w)"
    by (simp add: cc_contract_def)
  then have row: "list_all2 (\<lambda>l v. l < num_labels \<and> (l = 0) = (v = 0)) (labels ! r) (zeros h w ! r)"
    using rc(1) by (rule list_all2_nthD)
  from a have "length labels = length (zeros h w)" by (rule list_all2_lengthD)
  with rc(1) have rh: "r < h" by (simp add: zeros_def)
  from row have "length (labels ! r) = length (zeros h w ! r)" by (rule list_all2_lengthD)
  with rc(2) rh have cw: "c < w" by (simp add: zeros_def)
  from list_all2_nthD[OF row rc(2)] have "(labels ! r ! c = 0) = (zeros h w ! r ! c = 0)" by simp
  with rh cw rc(3) show False by (simp add: zeros_def)
qed

text \<open>
  Claim C8. When every line of the label file is skipped by the length test (or the file
  is empty), the accumulator mask stays all zero, and when the labelling of that mask
  meets its contract, the extractor returns two empty lists and raises nothing.
\<close>

theorem no_polygon_gives_empty_lists:
  assumes "read_text fs label_path = Inr content"
    and "\<forall>line\<in>set (readlines content).
           \<exists>items. parse_numbers line = Inr items \<and> length (drop 1 items) < 6"
    and "cc_contract (zeros h w) (connectedComponentsWithStats cv (zeros h w))"
  shows "extract_masks_and_bboxes cv fs label_path (h, w) = Inr ([], [])"
proof -
  obtain n labels stats where cc: "connectedComponentsWithStats cv (zeros h w) = (n, labels, stats)"
    by (cases "connectedComponentsWithStats cv (zeros h w)") auto
  with assms(3) contract_zeros[of h w n labels stats] have "n = 1" by simp
  with cc assms(1) rasterize_skipped[OF assms(2)] show ?thesis
    by (simp add: extract_masks_and_bboxes_def)
qed

subsection \<open>A label file without a valid polygon\<close>

lemma short_file_lines: "readlines ''0 0.1 0.1 0.5 0.5\<newline>'' = [''0 0.1 0.1 0.5 0.5\<newline>'']"
  by (simp add: readlines_def)

lemma short_line_numbers:
  "parse_numbers ''0 0.1 0.1 0.5 0.5\<newline>'' =
     Inr [Fin 0, Fin (3602879701896397 / 36028797018963968),
          Fin (3602879701896397 / 36028797018963968), Fin (1 / 2), Fin (1 / 2)]"
  by (simp add: parse_numbers_def str_split_def str_strip_def is_space_def
      float_0 float_0_1 float_0_5)

lemma zeros_2_3: "zeros 2 3 = [[0, 0, 0], [0, 0, 0]]"
  by (simp add: zeros_def numeral_eq_Suc)

theorem no_polygon_gives_empty_lists_witness:
  "extract_masks_and_bboxes example_cv (label_file ''0 0.1 0.1 0.5 0.5\<newline>'')
     ''labels/a.txt'' (2, 3) = Inr ([], [])"
proof -
  have 1: "read_text (label_file ''0 0.1 0.1 0.5 0.5\<newline>'') ''labels/a.txt''
      = Inr ''0 0.1 0.1 0.5 0.5\<newline>''"
    by (rule label_file_read)
  have 2: "\<forall>line\<in>set (readlines ''0 0.1 0.1 0.5 0.5\<newline>'').
      \<exists>items. parse_numbers line = Inr items \<and> length (drop 1 items) < 6"
    unfolding short_file_lines by (simp add: short_line_numbers)
  have 3: "cc_contract (zeros 2 3) (connectedComponentsWithStats example_cv (zeros 2 3))"
    unfolding zeros_2_3 by (simp add: example_cv_def cc_contract_def)
  show ?thesis
    using no_polygon_gives_empty_lists[OF 1 2 3] .
qed

subsection \<open>Boxes and masks under the labelling contract\<close>

lemma extract_under_contract:
  assumes "read_text fs label_path = Inr content"
    and "rasterize cv h w (readlines content) (zeros h w) = Inr base_mask"
    and "connectedComponentsWithStats cv base_mask = (n, labels, stats)"
    and "cc_contract base_mask (n, labels, stats)"
  shows "extract_masks_and_bboxes cv fs label_path (h, w) =
     Inr (map (component_mask labels) [1..<n],
          map (\<lambda>i. case stats ! i of (x, y, w_box, h_box, area) \<Rightarrow> [x, y, x + w_box, y + h_box])
            [1..<n])"
proof -
  from assms(4) have "\<forall>i\<in>set [1..<n]. i < length stats"
    by (simp add: cc_contract_def)
  from components_ok[OF this] assms(1,2,3) show ?thesis
    by (simp add: extract_masks_and_bboxes_def)
qed

lemma contract_stat:
  assumes "cc_contract base_mask (n, labels, stats)" "1 \<le> i" "i < n"
    and "bounding_rect (pixels_of labels i) = (x, y, bw, bh)"
  shows "pixels_of labels i \<noteq> []" and "\<exists>area. stats ! i = (x, y, bw, bh, area)"
proof -
  from assms(2,3) have mem: "i \<in> set [1..<n]" by simp
  from assms(1) have every: "\<forall>i\<in>set [1..<n]. pixels_of labels i \<noteq> [] \<and>
      (case stats ! i of (x, y, w, h, area) \<Rightarrow>
          (x, y, w, h) = bounding_rect (pixels_of labels i) \<and>
          area = int (length (pixels_of labels i)))"
    by (simp add: cc_contract_def list_all_iff)
  note * = bspec[OF every mem]
  then show "pixels_of labels i \<noteq> []" by simp
  from * show "\<exists>area. stats ! i = (x, y, bw, bh, area)"
    by (cases "stats ! i") (simp add: assms(4))
qed

text \<open>
  Claim C6. When the labelling of the filled mask meets its contract, the extractor
  returns as many boxes as masks, and for each index the bounding box of the foreground
  pixels of the mask, in the corner form \<open>[x, y, x + width, y + height]\<close>, is the box.
\<close>

theorem boxes_bound_their_masks:
  assumes "read_text fs label_path = Inr content"
    and "rasterize cv h w (readlines content) (zeros h w) = Inr base_mask"
    and "cc_contract base_mask (connectedComponentsWithStats cv base_mask)"
  shows "\<exists>masks boxes. extract_masks_and_bboxes cv fs label_path (h, w) = Inr (masks, boxes) \<and>
      length masks = length boxes \<and> (\<forall>i<length masks. mask_bbox (masks ! i) = boxes ! i)"
proof -
  obtain n labels stats where cc: "connectedComponentsWithStats cv base_mask = (n, labels, stats)"
    by (cases "connectedComponentsWithStats cv base_mask") auto
  with assms(3) have ct: "cc_contract base_mask (n, labels, stats)" by simp
  define masks where "masks = map (component_mask labels) [1..<n]"
  define boxes where "boxes = map (\<lambda>i. case stats ! i of (x, y, w_box, h_box, area) \<Rightarrow>
      [x, y, x + w_box, y + h_box]) [1..<n]"
  have ex: "extract_masks_and_bboxes cv fs label_path (h, w) = Inr (masks, boxes)"
    unfolding masks_def boxes_def by (rule extract_under_contract[OF assms(1,2) cc ct])
  have "mask_bbox (masks ! i) = boxes ! i" if "i < length masks" for i
  proof -
    from that have i: "i < n - 1" by (simp add: masks_def)
    then have m: "masks ! i = component_mask labels (1 + i)" by (simp add: masks_def)
    from i have b: "boxes ! i = (case stats ! (1 + i) of (x, y, w_box, h_box, area) \<Rightarrow>
      [x, y, x + w_box, y + h_box])" by (simp add: boxes_def)
    from i have i1: "1 \<le> 1 + i" "1 + i < n" by simp_all
    obtain x y bw bh where br: "bounding_rect (pixels_of labels (1 + i)) = (x, y, bw, bh)"
      by (cases "bounding_rect (pixels_of labels (1 + i))") auto
    from contract_stat(2)[OF ct i1 br] obtain area where
      "stats ! (1 + i) = (x, y, bw, bh, area)" by blast
    then show ?thesis
      unfolding m b mask_bbox_def pixels_of_component_mask br by simp
  qed
  moreover have "length masks = length boxes" by (simp add: masks_def boxes_def)
  ultimately show ?thesis using ex by blast
qed

lemma example_rasterize:
  "rasterize example_cv 2 3 (readlines ''0 0 0 1 0 1 1'') (zeros 2 3) = Inr [[1, 0, 1], [0, 0, 0]]"
proof -
  have f3: "fmul (Fin 1) (Fin 3) = Fin 3"
    using to_float_exact[of 3 0 False] by (simp add: fmul_def pow2_def max_finite_def)
  have f1: "fmul (Fin 1) (Fin 2) = Fin 2"
    using to_float_exact[of 2 0 False] by (simp add: fmul_def pow2_def max_finite_def)
  have f0: "fmul (Fin 0) (Fin 3) = Fin 0" "fmul (Fin 0) (Fin 2) = Fin 0"
    by (simp_all add: fmul_def to_float_def round_binary64_def max_finite_def)
  have r: "round_half_even 3 = 3" "round_half_even 2 = 2" "round_half_even 0 = 0"
    by (simp_all add: round_half_even_def)
  have poly: "build_polygon [Fin 0, Fin 0, Fin 1, Fin 0, Fin 1, Fin 1] 3 2 = Inr [(0, 0), (3, 0), (3, 2)]"
    by (simp add: build_polygon_def range2_def upt_rec py_index_def scale_round_def
        float_of_int_small f3 f1 f0 r)
  have sp: "set_pixels [[0, 0, 0], [0, 0, 0]] [(0, 0), (0, 2)] = [[1, 0, 1], [0, 0, 0]]"
    by (simp add: set_pixels_def)
  show ?thesis
    by (simp add: readlines_def parse_numbers_def str_split_def str_strip_def is_space_def
        float_0 float_1 poly example_cv_def zeros_2_3 sp)
qed

lemma example_pixels:
  "pixels_of [[Suc 0, 0, 2], [0, 0, 0]] (Suc 0) = [(0, 0)]" "pixels_of [[Suc 0, 0, 2], [0, 0, 0]] 2 = [(0, 2)]"
  by (simp_all add: pixels_of_def)

lemma example_rects:
  "bounding_rect [(0, 0)] = (0, 0, 1, 1)" "bounding_rect [(0, 2)] = (2, 0, 1, 1)"
  by (simp_all add: bounding_rect_def)

lemma example_contract:
  "cc_contract [[1, 0, 1], [0, 0, 0]] (connectedComponentsWithStats example_cv [[1, 0, 1], [0, 0, 0]])"
proof -
  have u: "[Suc 0..<3] = [Suc 0, 2]" by (simp add: upt_rec)
  have s: "connectedComponentsWithStats example_cv [[1, 0, 1], [0, 0, 0]] =
     (3, [[1, 0, 2], [0, 0, 0]], [(0, 0, 3, 2, 4), (0, 0, 1, 1, 1), (2, 0, 1, 1, 1)])"
    by (simp add: example_cv_def)
  show ?thesis
    unfolding s cc_contract_def
    by (simp add: u example_pixels example_rects)
qed

lemma example_read:
  "read_text (label_file ''0 0 0 1 0 1 1'') ''labels/a.txt'' = Inr ''0 0 0 1 0 1 1''"
  by (rule label_file_read)

theorem boxes_bound_their_masks_witness:
  "mask_bbox [[1, 0, 0], [0, 0, 0]] = [0, 0, 1, 1] \<and> mask_bbox [[0, 0, 1], [0, 0, 0]] = [2, 0, 3, 1]"
proof -
  from boxes_bound_their_masks[OF example_read example_rasterize example_contract]
  obtain masks boxes where
    "extract_masks_and_bboxes example_cv (label_file ''0 0 0 1 0 1 1'') ''labels/a.txt'' (2, 3)
       = Inr (masks, boxes)"
    and b: "\<forall>i<length masks. mask_bbox (masks ! i) = boxes ! i" by blast
  then have mb: "masks = [[[1, 0, 0], [0, 0, 0]], [[0, 0, 1], [0, 0, 0]]]"
     "boxes = [[0, 0, 1, 1], [2, 0, 3, 1]]"
    by (simp_all add: ex_two)
  from b[rule_format, of 0] b[rule_format, of 1] show ?thesis
    unfolding mb by simp
qed

subsection \<open>Bounds of the boxes, shape of the masks\<close>

lemma bounding_rect_bounds:
  assumes "ps \<noteq> []" and "\<forall>p\<in>set ps. fst p < h \<and> snd p < w"
    and "bounding_rect ps = (x, y, bw, bh)"
  shows "0 \<le> x \<and> x < x + bw \<and> x + bw \<le> int w \<and> 0 \<le> y \<and> y < y + bh \<and> y + bh \<le> int h"
proof -
  have fc: "finite (snd ` set ps)" "snd ` set ps \<noteq> {}"
    and fr: "finite (fst ` set ps)" "fst ` set ps \<noteq> {}"
    using assms(1) by simp_all
  have c1: "Min (snd ` set ps) \<le> Max (snd ` set ps)"
    using fc by (meson Max_in Min_le)
  have r1: "Min (fst ` set ps) \<le> Max (fst ` set ps)"
    using fr by (meson Max_in Min_le)
  have "Max (snd ` set ps) \<in> snd ` set ps" using fc by (rule Max_in)
  with assms(2) have c2: "Max (snd ` set ps) < w" by auto
  have "Max (fst ` set ps) \<in> fst ` set ps" using fr by (rule Max_in)
  with assms(2) have r2: "Max (fst ` set ps) < h" by auto
  from assms(3) have "x = int (Min (snd ` set ps))" "y = int (Min (fst ` set ps))"
    "bw = int (Max (snd ` set ps)) - int (Min (snd ` set ps)) + 1"
    "bh = int (Max (fst ` set ps)) - int (Min (fst ` set ps)) + 1"
    by (simp_all add: bounding_rect_def)
  with c1 c2 r1 r2 show ?thesis by simp
qed

lemma pixels_of_in_shape:
  assumes "has_shape img h w" "p \<in> set (pixels_of img v)"
  shows "fst p < h \<and> snd p < w"
proof -
  obtain r c where p: "p = (r, c)" by (cases p)
  with assms(2) have rc: "r < length img" "c < length (img ! r)" by (simp_all add: pixels_of_iff)
  then have "img ! r \<in> set img" by simp
  with assms(1) rc show ?thesis by (simp add: p has_shape_def list_all_iff)
qed

text \<open>
  Claim C10. When the labelling of the filled mask meets its contract, every box returned
  for an image of shape \<open>(h, w)\<close> satisfies \<open>0 \<le> x_min < x_max \<le> w\<close> and
  \<open>0 \<le> y_min < y_max \<le> h\<close>, and every returned mask has the shape \<open>(h, w)\<close>, holds
  only the values 0 and 1 and has at least one foreground pixel.
\<close>

theorem boxes_and_masks_well_formed:
  assumes "read_text fs label_path = Inr content"
    and "rasterize cv h w (readlines content) (zeros h w) = Inr base_mask"
    and "cc_contract base_mask (connectedComponentsWithStats cv base_mask)"
  shows "\<exists>masks boxes. extract_masks_and_bboxes cv fs label_path (h, w) = Inr (masks, boxes) \<and>
      (\<forall>b\<in>set boxes. \<exists>x_min y_min x_max y_max. b = [x_min, y_min, x_max, y_max] \<and>
          0 \<le> x_min \<and> x_min < x_max \<and> x_max \<le> int w \<and>
          0 \<le> y_min \<and> y_min < y_max \<and> y_max \<le> int h) \<and>
      (\<forall>m\<in>set masks. has_shape m h w \<and> (\<forall>row\<in>set m. \<forall>v\<in>set row. v = 0 \<or> v = 1) \<and>
          pixels_of m 1 \<noteq> [])"
proof -
  obtain n labels stats where cc: "connectedComponentsWithStats cv base_mask = (n, labels, stats)"
    by (cases "connectedComponentsWithStats cv base_mask") auto
  with assms(3) have ct: "cc_contract base_mask (n, labels, stats)" by simp
  define masks where "masks = map (component_mask labels) [1..<n]"
  define boxes where "boxes = map (\<lambda>i. case stats ! i of (x, y, w_box, h_box, area) \<Rightarrow>
      [x, y, x + w_box, y + h_box]) [1..<n]"
  have ex: "extract_masks_and_bboxes cv fs label_path (h, w) = Inr (masks, boxes)"
    unfolding masks_def boxes_def by (rule extract_under_contract[OF assms(1,2) cc ct])
  have "has_shape base_mask h w"
    using assms(2) has_shape_zeros by (rule rasterize_shape)
  moreover from ct have "list_all2 (list_all2 (\<lambda>l v. l < n \<and> (l = 0) = (v = 0))) labels base_mask"
    by (simp add: cc_contract_def)
  ultimately have sh: "has_shape labels h w" by (rule contract_shape[rotated])
  have box: "\<exists>x_min y_min x_max y_max. b = [x_min, y_min, x_max, y_max] \<and>
          0 \<le> x_min \<and> x_min < x_max \<and> x_max \<le> int w \<and>
          0 \<le> y_min \<and> y_min < y_max \<and> y_max \<le> int h" if "b \<in> set boxes" for b
  proof -
    from that obtain i where i: "1 \<le> i" "i < n"
      and b: "b = (case stats ! i of (x, y, w_box, h_box, area) \<Rightarrow> [x, y, x + w_box, y + h_box])"
      by (auto simp: boxes_def)
    obtain x y bw bh where br: "bounding_rect (pixels_of labels i) = (x, y, bw, bh)"
      by (cases "bounding_rect (pixels_of labels i)") auto
    from contract_stat[OF ct i br] obtain area where
      ne: "pixels_of labels i \<noteq> []" and st: "stats ! i = (x, y, bw, bh, area)" by blast
    have "\<forall>p\<in>set (pixels_of labels i). fst p < h \<and> snd p < w"
      using pixels_of_in_shape[OF sh] by blast
    from bounding_rect_bounds[OF ne this br] show ?thesis
      by (simp add: b st)
  qed
  have mask: "has_shape m h w \<and> (\<forall>row\<in>set m. \<forall>v\<in>set row. v = 0 \<or> v = 1) \<and> pixels_of m 1 \<noteq> []"
    if "m \<in> set masks" for m
  proof -
    from that obtain i where i: "1 \<le> i" "i < n" and m: "m = component_mask labels i"
      by (auto simp: masks_def)
    obtain x y bw bh where br: "bounding_rect (pixels_of labels i) = (x, y, bw, bh)"
      by (cases "bounding_rect (pixels_of labels i)") auto
    from contract_stat(1)[OF ct i br] have "pixels_of m 1 \<noteq> []"
      unfolding m pixels_of_component_mask .
    moreover have "has_shape m h w" unfolding m using sh by (rule has_shape_component_mask)
    moreover have "\<forall>row\<in>set m. \<forall>v\<in>set row. v = 0 \<or> v = 1"
      unfolding m using component_mask_values by blast
    ultimately show ?thesis by blast
  qed
  from ex box mask show ?thesis by blast
qed

theorem boxes_and_masks_well_formed_witness:
  "has_shape [[1, 0, 0], [0, 0, 0]] 2 3 \<and> pixels_of [[1, 0, 0], [0, 0, 0]] 1 \<noteq> [] \<and>
   (\<exists>x_min y_min x_max y_max. [2, 0, 3, 1] = [x_min, y_min, x_max, y_max] \<and>
          0 \<le> x_min \<and> x_min < x_max \<and> x_max \<le> int 3 \<and>
          0 \<le> y_min \<and> y_min < y_max \<and> y_max \<le> int 2)"
proof -
  from boxes_and_masks_well_formed[OF example_read example_rasterize example_contract]
  obtain masks boxes where
    e: "extract_masks_and_bboxes example_cv (label_file ''0 0 0 1 0 1 1'') ''labels/a.txt'' (2, 3)
       = Inr (masks, boxes)"
    and b: "\<forall>b\<in>set boxes. \<exists>x_min y_min x_max y_max. b = [x_min, y_min, x_max, y_max] \<and>
          0 \<le> x_min \<and> x_min < x_max \<and> x_max \<le> int 3 \<and>
          0 \<le> y_min \<and> y_min < y_max \<and> y_max \<le> int 2"
    and m: "\<forall>m\<in>set masks. has_shape m 2 3 \<and> (\<forall>row\<in>set m. \<forall>v\<in>set row. v = 0 \<or> v = 1) \<and>
          pixels_of m 1 \<noteq> []"
    by blast
  from e have mb: "masks = [[[1, 0, 0], [0, 0, 0]], [[0, 0, 1], [0, 0, 0]]]"
     "boxes = [[0, 0, 1, 1], [2, 0, 3, 1]]"
    by (simp_all add: ex_two)
  have "[2, 0, 3, 1] \<in> set boxes" "[[1, 0, 0], [0, 0, 0]] \<in> set masks"
    unfolding mb by simp_all
  with b m show ?thesis by blast
qed

subsection \<open>The text of an output file\<close>

lemma digit_char_not_newline: "d < 10 \<Longrightarrow> digit_char d \<noteq> CHR 0x0A"
proof -
  assume "d < 10"
  then have "d \<in> {0, 1, 2, 3, 4, 5, 6, 7, 8, 9}" by auto
  then show ?thesis by (auto simp: digit_char_def)
qed

lemma str_nat_last: "str_nat n \<noteq> [] \<and> last (str_nat n) \<noteq> CHR 0x0A"
proof (cases "n < 10")
  case True
  then show ?thesis by (simp add: str_nat.simps[of n] digit_char_not_newline)
next
  case False
  then show ?thesis by (simp add: str_nat.simps[of n] digit_char_not_newline)
qed

lemma fmt6_last: "fmt6 c \<noteq> [] \<and> last (fmt6 c) \<noteq> CHR 0x0A"
proof (cases c)
  case (Fin q)
  then show ?thesis using str_nat_last[of "scaled6 q mod 10 ^ 6"] by (simp add: fixed6_def)
qed simp_all

lemma bbox_record_last:
  assumes "bbox_record class_id parts = Inr r"
  shows "r \<noteq> [] \<and> last r \<noteq> CHR 0x0A"
proof -
  from assms obtain a b c d e where "r = join '' '' [a, b, c, d, fmt6 e]"
    by (auto simp: bbox_record_def Let_def split: sum.splits)
  then show ?thesis using fmt6_last[of e] by simp
qed

lemma bbox_lines_last:
  "bbox_lines class_id lines = Inr bl \<Longrightarrow> r \<in> set bl \<Longrightarrow> r \<noteq> [] \<and> last r \<noteq> CHR 0x0A"
proof (induction lines arbitrary: bl)
  case Nil
  then show ?case by simp
next
  case (Cons l rest)
  then show ?case
    by (auto split: sum.splits if_splits dest: bbox_record_last)
qed

lemma join_last:
  assumes "bl \<noteq> []" "\<forall>r\<in>set bl. r \<noteq> [] \<and> last r \<noteq> c"
  shows "join sep bl \<noteq> [] \<and> last (join sep bl) \<noteq> c"
  using assms by (induction sep bl rule: join.induct) auto

lemma no_trailing_newline:
  assumes "bbox_lines class_id lines = Inr bl"
  shows "\<not> endswith (join [CHR 0x0A] bl) [CHR 0x0A]"
proof (cases "bl = []")
  case True
  then show ?thesis by (simp add: endswith_def)
next
  case False
  from bbox_lines_last[OF assms] have "\<forall>r\<in>set bl. r \<noteq> [] \<and> last r \<noteq> CHR 0x0A" by blast
  from join_last[OF False this, of "[CHR 0x0A]"]
  have j: "join [CHR 0x0A] bl \<noteq> []" "last (join [CHR 0x0A] bl) \<noteq> CHR 0x0A" by simp_all
  show ?thesis
  proof
    assume "endswith (join [CHR 0x0A] bl) [CHR 0x0A]"
    then have "drop (length (join [CHR 0x0A] bl) - 1) (join [CHR 0x0A] bl) = [CHR 0x0A]"
      by (simp add: endswith_def)
    moreover have "drop (length (join [CHR 0x0A] bl) - 1) (join [CHR 0x0A] bl) =
        [last (join [CHR 0x0A] bl)]"
      using j(1) by (metis append_butlast_last_id append_eq_conv_conj length_butlast)
    ultimately show False using j(2) by simp
  qed
qed

subsection \<open>Running the converter twice\<close>

lemma write_text_canonical: "write_text fs p t = Inr fs' \<Longrightarrow> canonical fs' = canonical fs"
  by (auto simp: write_text_def split: if_splits option.splits)

lemma convert_files_canonical:
  "convert_files l b c names fs = (fs', r) \<Longrightarrow> canonical fs' = canonical fs"
proof (induction names arbitrary: fs)
  case Nil
  then show ?case by simp
next
  case (Cons n rest)
  then show ?case
    by (auto split: if_splits sum.splits dest!: write_text_canonical)
qed

lemma dir_at_canonical: "canonical fs' = canonical fs \<Longrightarrow> dir_at fs' p = dir_at fs p"
  by (simp add: dir_at_def)

lemma convert_step:
  assumes "endswith n ''.txt''" and "CHR ''/'' \<notin> set n"
  shows "convert_files l b c (n # rest) fs =
     (case read_text fs (os_path_join l n) of Inl e \<Rightarrow> (fs, Some e) | Inr content \<Rightarrow>
      case bbox_lines c (readlines content) of Inl e \<Rightarrow> (fs, Some e) | Inr bl \<Rightarrow>
      case dirs fs (dir_at fs b) of None \<Rightarrow> (fs, Some OSError)
      | Some files \<Rightarrow>
          convert_files l b c rest
            (fs\<lparr>dirs := (dirs fs)(dir_at fs b \<mapsto> AList.update n (join [CHR 0x0A] bl) files)\<rparr>))"
  using assms by (simp add: write_join txt_nonempty split: sum.splits option.splits)

lemma read_lookup:
  assumes "CHR ''/'' \<notin> set n" and "n \<noteq> []"
  shows "read_text fs (os_path_join d n) =
     (case map_option (\<lambda>files. map_of files n) (dirs fs (dir_at fs d)) of
        Some (Some content) \<Rightarrow> Inr content | _ \<Rightarrow> Inl OSError)"
  using assms by (simp add: read_join split: option.splits)

lemma convert_files_frame:
  assumes "convert_files l b c names fs = (fs', r)" and "\<forall>m\<in>set names. CHR ''/'' \<notin> set m"
    and "n \<notin> set names"
  shows "map_option (\<lambda>files. map_of files n) (dirs fs' k) =
         map_option (\<lambda>files. map_of files n) (dirs fs k)"
  using assms
proof (induction names arbitrary: fs)
  case Nil
  then show ?case by simp
next
  case (Cons m rest)
  from Cons.prems have plain: "\<forall>m\<in>set rest. CHR ''/'' \<notin> set m" "CHR ''/'' \<notin> set m"
    and nm: "n \<noteq> m" "n \<notin> set rest" by auto
  show ?case
  proof (cases "endswith m ''.txt''")
    case False
    with Cons.prems(1) have "convert_files l b c rest fs = (fs', r)" by simp
    from Cons.IH[OF this plain(1) nm(2)] show ?thesis .
  next
    case True
    note step = Cons.prems(1)[unfolded convert_step[OF True plain(2)]]
    show ?thesis
    proof (cases "read_text fs (os_path_join l m)")
      case (Inl e)
      with step show ?thesis by simp
    next
      case (Inr content)
      show ?thesis
      proof (cases "bbox_lines c (readlines content)")
        case (Inl e)
        with step Inr show ?thesis by simp
      next
        case bl: (Inr bl)
        show ?thesis
        proof (cases "dirs fs (dir_at fs b)")
          case None
          with step Inr bl show ?thesis by simp
        next
          case (Some files)
          define fs1 where "fs1 = fs\<lparr>dirs := (dirs fs)(dir_at fs b \<mapsto>
            AList.update m (join [CHR 0x0A] bl) files)\<rparr>"
          from step Inr bl Some have "convert_files l b c rest fs1 = (fs', r)"
            by (simp add: fs1_def)
          from Cons.IH[OF this plain(1) nm(2)]
          have "map_option (\<lambda>files. map_of files n) (dirs fs' k) =
                map_option (\<lambda>files. map_of files n) (dirs fs1 k)" .
          also have "\<dots> = map_option (\<lambda>files. map_of files n) (dirs fs k)"
            using nm(1) Some by (simp add: fs1_def update_conv')
          finally show ?thesis .
        qed
      qed
    qed
  qed
qed

lemma convert_files_dir_frame:
  assumes "convert_files l b c names fs = (fs', r)" and "\<forall>m\<in>set names. CHR ''/'' \<notin> set m"
    and "k \<noteq> dir_at fs b"
  shows "dirs fs' k = dirs fs k"
  using assms
proof (induction names arbitrary: fs)
  case Nil
  then show ?case by simp
next
  case (Cons m rest)
  from Cons.prems have plain: "\<forall>m\<in>set rest. CHR ''/'' \<notin> set m" "CHR ''/'' \<notin> set m" by auto
  show ?case
  proof (cases "endswith m ''.txt''")
    case False
    with Cons.prems(1) have "convert_files l b c rest fs = (fs', r)" by simp
    from Cons.IH[OF this plain(1) Cons.prems(3)] show ?thesis .
  next
    case True
    note step = Cons.prems(1)[unfolded convert_step[OF True plain(2)]]
    show ?thesis
    proof (cases "read_text fs (os_path_join l m)")
      case (Inl e)
      with step show ?thesis by simp
    next
      case (Inr content)
      show ?thesis
      proof (cases "bbox_lines c (readlines content)")
        case (Inl e)
        with step Inr show ?thesis by simp
      next
        case bl: (Inr bl)
        show ?thesis
        proof (cases "dirs fs (dir_at fs b)")
          case None
          with step Inr bl show ?thesis by simp
        next
          case (Some files)
          define fs1 where "fs1 = fs\<lparr>dirs := (dirs fs)(dir_at fs b \<mapsto>
            AList.update m (join [CHR 0x0A] bl) files)\<rparr>"
          from step Inr bl Some have run: "convert_files l b c rest fs1 = (fs', r)"
            by (simp add: fs1_def)
          have "dir_at fs1 b = dir_at fs b" by (simp add: fs1_def dir_at_def)
          with Cons.prems(3) have "k \<noteq> dir_at fs1 b" by simp
          from Cons.IH[OF run plain(1) this] have "dirs fs' k = dirs fs1 k" .
          also have "\<dots> = dirs fs k" using Cons.prems(3) by (simp add: fs1_def)
          finally show ?thesis .
        qed
      qed
    qed
  qed
qed

lemma convert_files_again:
  assumes "convert_files l b c names fs = (fs', r)"
    and "distinct names" and "\<forall>m\<in>set names. CHR ''/'' \<notin> set m"
    and "\<forall>m\<in>set names. endswith m ''.txt'' \<longrightarrow>
           read_text fs' (os_path_join l m) = read_text fs (os_path_join l m)"
  shows "convert_files l b c names fs' = (fs', r) \<and>
     (r = None \<longrightarrow> (\<forall>m\<in>set names. endswith m ''.txt'' \<longrightarrow>
        (\<exists>content bl. read_text fs (os_path_join l m) = Inr content \<and>
           bbox_lines c (readlines content) = Inr bl \<and>
           read_text fs' (os_path_join b m) = Inr (join [CHR 0x0A] bl))))"
  using assms
proof (induction names arbitrary: fs)
  case Nil
  then show ?case by simp
next
  case (Cons n rest)
  from Cons.prems have plain: "\<forall>m\<in>set rest. CHR ''/'' \<notin> set m" "CHR ''/'' \<notin> set n"
    and dist: "distinct rest" "n \<notin> set rest" by auto
  show ?case
  proof (cases "endswith n ''.txt''")
    case False
    with Cons.prems(1) have run: "convert_files l b c rest fs = (fs', r)" by simp
    from Cons.prems(4) have "\<forall>m\<in>set rest. endswith m ''.txt'' \<longrightarrow>
           read_text fs' (os_path_join l m) = read_text fs (os_path_join l m)" by simp
    from Cons.IH[OF run dist(1) plain(1) this] False show ?thesis by simp
  next
    case True
    note ne = txt_nonempty[OF True]
    note step = Cons.prems(1)[unfolded convert_step[OF True plain(2)]]
    from Cons.prems(4) True
    have same_n: "read_text fs' (os_path_join l n) = read_text fs (os_path_join l n)" by simp
    show ?thesis
    proof (cases "read_text fs (os_path_join l n)")
      case (Inl e)
      with step have "fs' = fs" "r = Some e" by simp_all
      with Cons.prems(1) show ?thesis by simp
    next
      case (Inr content)
      show ?thesis
      proof (cases "bbox_lines c (readlines content)")
        case (Inl e)
        with step Inr have "fs' = fs" "r = Some e" by simp_all
        with Cons.prems(1) show ?thesis by simp
      next
        case bl: (Inr bl)
        show ?thesis
        proof (cases "dirs fs (dir_at fs b)")
          case None
          with step Inr bl have "fs' = fs" "r = Some OSError" by simp_all
          with Cons.prems(1) show ?thesis by simp
        next
          case (Some files)
          define t where "t = join [CHR 0x0A] bl"
          define fs1 where "fs1 = fs\<lparr>dirs := (dirs fs)(dir_at fs b \<mapsto> AList.update n t files)\<rparr>"
          from step Inr bl Some have run: "convert_files l b c rest fs1 = (fs', r)"
            by (simp add: fs1_def t_def)
          have c1: "canonical fs1 = canonical fs" by (simp add: fs1_def)
          have c': "canonical fs' = canonical fs"
            using convert_files_canonical[OF run] c1 by simp
          have d1: "dir_at fs1 p = dir_at fs p" for p by (rule dir_at_canonical[OF c1])
          have d': "dir_at fs' p = dir_at fs p" for p by (rule dir_at_canonical[OF c'])
          have read1: "read_text fs1 (os_path_join l m) = read_text fs (os_path_join l m)"
            if "m \<in> set rest" "endswith m ''.txt''" for m
          proof -
            from that plain(1) dist(2) have m: "CHR ''/'' \<notin> set m" "m \<noteq> []" "m \<noteq> n"
              by (auto dest: txt_nonempty)
            show ?thesis
              unfolding read_lookup[OF m(1,2)] d1
              using m(3) Some by (simp add: fs1_def update_conv')
          qed
          have "\<forall>m\<in>set rest. endswith m ''.txt'' \<longrightarrow>
              read_text fs' (os_path_join l m) = read_text fs1 (os_path_join l m)"
            using Cons.prems(4) read1 by simp
          from Cons.IH[OF run dist(1) plain(1) this]
          have again: "convert_files l b c rest fs' = (fs', r)"
            and out: "r = None \<longrightarrow> (\<forall>m\<in>set rest. endswith m ''.txt'' \<longrightarrow>
              (\<exists>content bl. read_text fs1 (os_path_join l m) = Inr content \<and>
                 bbox_lines c (readlines content) = Inr bl \<and>
                 read_text fs' (os_path_join b m) = Inr (join [CHR 0x0A] bl)))"
            by simp_all
          have "map_option (\<lambda>files. map_of files n) (dirs fs' (dir_at fs b)) =
                map_option (\<lambda>files. map_of files n) (dirs fs1 (dir_at fs b))"
            using run plain(1) dist(2) by (rule convert_files_frame)
          also have "\<dots> = Some (Some t)" by (simp add: fs1_def update_conv')
          finally obtain files' where f': "dirs fs' (dir_at fs b) = Some files'"
            "map_of files' n = Some t" by auto
          then have "AList.update n t files' = files'" by (simp add: update_triv)
          with f'(1) have triv:
            "fs'\<lparr>dirs := (dirs fs')(dir_at fs b \<mapsto> AList.update n t files')\<rparr> = fs'"
            by (simp add: fun_upd_idem)
          have rd: "read_text fs' (os_path_join l n) = Inr content"
            using same_n Inr by simp
          have second: "convert_files l b c (n # rest) fs' = (fs', r)"
            unfolding convert_step[OF True plain(2)]
            using rd bl f'(1) triv again by (simp add: d' t_def)
          have written: "read_text fs' (os_path_join b n) = Inr t"
            unfolding read_lookup[OF plain(2) ne] d' using f' by simp
          have "\<exists>content bl. read_text fs (os_path_join l m) = Inr content \<and>
                 bbox_lines c (readlines content) = Inr bl \<and>
                 read_text fs' (os_path_join b m) = Inr (join [CHR 0x0A] bl)"
            if "r = None" "m \<in> set (n # rest)" "endswith m ''.txt''" for m
          proof (cases "m = n")
            case True
            with Inr bl written show ?thesis by (auto simp: t_def)
          next
            case False
            with that have mr: "m \<in> set rest" by simp
            with out that obtain content bl where
              o: "read_text fs1 (os_path_join l m) = Inr content"
                "bbox_lines c (readlines content) = Inr bl"
                "read_text fs' (os_path_join b m) = Inr (join [CHR 0x0A] bl)" by blast
            from o(1) have "read_text fs (os_path_join l m) = Inr content"
              unfolding read1[OF mr that(3)] .
            with o(2,3) show ?thesis by blast
          qed
          with second show ?thesis by blast
        qed
      qed
    qed
  qed
qed

lemma makedirs_cases:
  assumes "makedirs b fs = Inr fs0"
  shows "canonical fs0 = canonical fs" and "dirs fs0 (dir_at fs b) \<noteq> None"
    and "k \<noteq> dir_at fs b \<Longrightarrow> dirs fs0 k = dirs fs k"
    and "dirs fs (dir_at fs b) = None \<Longrightarrow> dirs fs0 (dir_at fs b) = Some []"
    and "dirs fs (dir_at fs b) \<noteq> None \<Longrightarrow> fs0 = fs"
  using assms by (auto simp: makedirs_def split: if_splits option.splits sum.splits)

lemma makedirs_again: "makedirs b fs = Inr fs0 \<Longrightarrow> makedirs b fs0 = Inr fs0"
  by (auto simp: makedirs_def dir_at_def split: if_splits option.splits sum.splits)

lemma makedirs_present:
  "b \<noteq> [] \<Longrightarrow> dirs fs (dir_at fs b) \<noteq> None \<Longrightarrow> makedirs b fs = Inr fs"
  by (auto simp: makedirs_def)

lemma makedirs_path: "makedirs b fs = Inr fs0 \<Longrightarrow> b \<noteq> []"
  by (auto simp: makedirs_def split: if_splits)

lemma convert_files_present:
  assumes "convert_files l b c names fs = (fs', r)" and "dirs fs k \<noteq> None"
  shows "dirs fs' k \<noteq> None"
  using assms
proof (induction names arbitrary: fs)
  case Nil
  then show ?case by simp
next
  case (Cons n rest)
  show ?case
  proof (cases "endswith n ''.txt''")
    case False
    with Cons show ?thesis by simp
  next
    case True
    show ?thesis
    proof (cases "read_text fs (os_path_join l n)")
      case (Inl e)
      with True Cons.prems show ?thesis by simp
    next
      case (Inr content)
      show ?thesis
      proof (cases "bbox_lines c (readlines content)")
        case (Inl e)
        with True Inr Cons.prems show ?thesis by simp
      next
        case bl: (Inr bl)
        show ?thesis
        proof (cases "write_text fs (os_path_join b n) (join [CHR 0x0A] bl)")
          case (Inl e)
          with True Inr bl Cons.prems show ?thesis by simp
        next
          case w: (Inr fs1)
          with True Inr bl Cons.prems(1) have run: "convert_files l b c rest fs1 = (fs', r)"
            by simp
          from w Cons.prems(2) have "dirs fs1 k \<noteq> None"
            by (auto simp: write_text_def split: if_splits option.splits)
          from Cons.IH[OF run this] show ?thesis .
        qed
      qed
    qed
  qed
qed

lemma second_run:
  assumes run: "convert_polygons_to_bboxes l b c fs = (fs', r)"
    and proper: "proper_listing fs l"
    and same: "labels_untouched fs l fs'"
  shows "convert_polygons_to_bboxes l b c fs' = (fs', r)"
    and "r = None \<Longrightarrow> listdir fs l = Inr names \<Longrightarrow> n \<in> set names \<Longrightarrow> endswith n ''.txt'' \<Longrightarrow>
      \<exists>content bl. read_text fs (os_path_join l n) = Inr content \<and>
        bbox_lines c (readlines content) = Inr bl \<and>
        read_text fs' (os_path_join b n) = Inr (join [CHR 0x0A] bl)"
proof -
  have "convert_polygons_to_bboxes l b c fs' = (fs', r) \<and>
     (r = None \<longrightarrow> (\<forall>names n. listdir fs l = Inr names \<longrightarrow> n \<in> set names \<longrightarrow>
        endswith n ''.txt'' \<longrightarrow>
        (\<exists>content bl. read_text fs (os_path_join l n) = Inr content \<and>
           bbox_lines c (readlines content) = Inr bl \<and>
           read_text fs' (os_path_join b n) = Inr (join [CHR 0x0A] bl))))"
  proof (cases "makedirs b fs")
    case (Inl e)
    with run have "fs' = fs" "r = Some e" by (simp_all add: convert_polygons_to_bboxes_def)
    with run show ?thesis by simp
  next
    case mk: (Inr fs0)
    note m = makedirs_cases[OF mk]
    have d0: "dir_at fs0 p = dir_at fs p" for p by (rule dir_at_canonical[OF m(1)])
    show ?thesis
    proof (cases "listdir fs0 l")
      case (Inl e)
      with run mk have "fs' = fs0" "r = Some e" by (simp_all add: convert_polygons_to_bboxes_def)
      with Inl makedirs_again[OF mk] show ?thesis by (simp add: convert_polygons_to_bboxes_def)
    next
      case ls0: (Inr names)
      with run mk have files: "convert_files l b c names fs0 = (fs', r)"
        by (simp add: convert_polygons_to_bboxes_def)
      have c': "canonical fs' = canonical fs"
        using convert_files_canonical[OF files] m(1) by simp
      have d': "dir_at fs' p = dir_at fs p" for p by (rule dir_at_canonical[OF c'])
      from ls0 have l: "l \<noteq> []" by (auto simp: listdir_def split: if_splits)
      have ls: "listdir fs l = Inr names \<and> dirs fs0 (dir_at fs l) = dirs fs (dir_at fs l)"
      proof (cases "dirs fs (dir_at fs b) = None \<and> dir_at fs l = dir_at fs b")
        case True
        with m(4) ls0 l have "names = []" by (simp add: listdir_def d0)
        with files have "fs' = fs0" by simp
        with same ls0 have "listdir fs l = Inr names" by (simp add: labels_untouched_def)
        with True l show ?thesis by (simp add: listdir_def)
      next
        case False
        then have "dirs fs0 (dir_at fs l) = dirs fs (dir_at fs l)"
          using m(3,5) by (cases "dirs fs (dir_at fs b) = None") auto
        with ls0 l show ?thesis by (simp add: listdir_def d0)
      qed
      from proper ls have wf: "distinct names" "\<forall>m\<in>set names. CHR ''/'' \<notin> set m"
        by (simp_all add: proper_listing_def list_all_iff)
      from same ls have ls': "listdir fs' l = Inr names"
        and rd: "\<forall>m\<in>set names. endswith m ''.txt'' \<longrightarrow>
           read_text fs' (os_path_join l m) = read_text fs (os_path_join l m)"
        by (simp_all add: labels_untouched_def list_all_iff)
      have rd0: "read_text fs0 (os_path_join l m) = read_text fs (os_path_join l m)"
        if "m \<in> set names" "endswith m ''.txt''" for m
      proof -
        from that wf(2) have "CHR ''/'' \<notin> set m" "m \<noteq> []" by (auto dest: txt_nonempty)
        then show ?thesis
          unfolding read_lookup[OF \<open>CHR ''/'' \<notin> set m\<close> \<open>m \<noteq> []\<close>] d0 using ls by simp
      qed
      with rd have "\<forall>m\<in>set names. endswith m ''.txt'' \<longrightarrow>
           read_text fs' (os_path_join l m) = read_text fs0 (os_path_join l m)" by simp
      note again = convert_files_again[OF files wf this]
      from m(2) have "dirs fs' (dir_at fs b) \<noteq> None"
        by (rule convert_files_present[OF files])
      then have "makedirs b fs' = Inr fs'"
        using makedirs_path[OF mk] by (intro makedirs_present) (simp_all add: d')
      with ls' again have 1: "convert_polygons_to_bboxes l b c fs' = (fs', r)"
        by (simp add: convert_polygons_to_bboxes_def)
      have "\<exists>content bl. read_text fs (os_path_join l n) = Inr content \<and>
           bbox_lines c (readlines content) = Inr bl \<and>
           read_text fs' (os_path_join b n) = Inr (join [CHR 0x0A] bl)"
        if "r = None" "listdir fs l = Inr ns" "n \<in> set ns" "endswith n ''.txt''" for ns n
      proof -
        from that(2) ls have "ns = names" by simp
        with that again obtain content bl where
          o: "read_text fs0 (os_path_join l n) = Inr content"
            "bbox_lines c (readlines content) = Inr bl"
            "read_text fs' (os_path_join b n) = Inr (join [CHR 0x0A] bl)" by blast
        from \<open>ns = names\<close> that(3) have mem: "n \<in> set names" by simp
        from o(1) have "read_text fs (os_path_join l n) = Inr content"
          unfolding rd0[OF mem that(4)] .
        with o(2,3) show ?thesis by blast
      qed
      with 1 show ?thesis by blast
    qed
  qed
  then show "convert_polygons_to_bboxes l b c fs' = (fs', r)"
    and "r = None \<Longrightarrow> listdir fs l = Inr names \<Longrightarrow> n \<in> set names \<Longrightarrow> endswith n ''.txt'' \<Longrightarrow>
      \<exists>content bl. read_text fs (os_path_join l n) = Inr content \<and>
        bbox_lines c (readlines content) = Inr bl \<and>
        read_text fs' (os_path_join b n) = Inr (join [CHR 0x0A] bl)"
    by blast+
qed

lemma same_directory_content:
  assumes "canonical fs' = canonical fs"
    and "dirs fs' (dir_at fs l) = dirs fs (dir_at fs l)" and "proper_listing fs l"
  shows "labels_untouched fs l fs'"
proof -
  have d: "dir_at fs' p = dir_at fs p" for p by (rule dir_at_canonical[OF assms(1)])
  have ls: "listdir fs' l = listdir fs l" by (simp add: listdir_def d assms(2))
  show ?thesis
  proof (cases "listdir fs l")
    case (Inl e)
    with ls show ?thesis by (simp add: labels_untouched_def)
  next
    case (Inr names)
    have "read_text fs' (os_path_join l n) = read_text fs (os_path_join l n)"
      if "n \<in> set names" "endswith n ''.txt''" for n
    proof -
      from that assms(3) Inr have n: "CHR ''/'' \<notin> set n" "n \<noteq> []"
        by (auto simp: proper_listing_def list_all_iff dest: txt_nonempty)
      show ?thesis unfolding read_lookup[OF n] d assms(2) ..
    qed
    with ls Inr show ?thesis by (simp add: labels_untouched_def list_all_iff)
  qed
qed

text \<open>When the two paths name different directories, a run leaves the label files
  untouched.\<close>

lemma other_directory_leaves_labels:
  assumes "convert_polygons_to_bboxes l b c fs = (fs', r)" and "proper_listing fs l"
    and "dir_at fs l \<noteq> dir_at fs b"
  shows "labels_untouched fs l fs'"
proof (cases "makedirs b fs")
  case (Inl e)
  with assms(1) have "fs' = fs" by (simp add: convert_polygons_to_bboxes_def)
  with assms(2) show ?thesis by (simp add: same_directory_content)
next
  case mk: (Inr fs0)
  note m = makedirs_cases[OF mk]
  have d0: "dir_at fs0 p = dir_at fs p" for p by (rule dir_at_canonical[OF m(1)])
  have k0: "dirs fs0 (dir_at fs l) = dirs fs (dir_at fs l)" using assms(3) by (rule m(3))
  have ls0: "listdir fs0 l = listdir fs l" by (simp add: listdir_def d0 k0)
  show ?thesis
  proof (cases "listdir fs0 l")
    case (Inl e)
    with assms(1) mk have "fs' = fs0" by (simp add: convert_polygons_to_bboxes_def)
    with m(1) k0 assms(2) show ?thesis by (simp add: same_directory_content)
  next
    case (Inr names)
    with assms(1) mk have files: "convert_files l b c names fs0 = (fs', r)"
      by (simp add: convert_polygons_to_bboxes_def)
    from assms(2) Inr ls0 have plain: "\<forall>m\<in>set names. CHR ''/'' \<notin> set m"
      by (simp add: proper_listing_def list_all_iff)
    from assms(3) have "dir_at fs l \<noteq> dir_at fs0 b" by (simp add: d0)
    from convert_files_dir_frame[OF files plain this] k0
    have "dirs fs' (dir_at fs l) = dirs fs (dir_at fs l)" by simp
    moreover have "canonical fs' = canonical fs"
      using convert_files_canonical[OF files] m(1) by simp
    ultimately show ?thesis using assms(2) by (simp add: same_directory_content)
  qed
qed

text \<open>
  Claim C5 as the code has it. When a run has left the label files untouched, as it does
  whenever the output directory is not the label directory, a second run with the same
  arguments ends as the first run ended and leaves every file as the first run left it:
  the exception, if any, and the file system are the same. When the run ends without an
  exception, the output file of every label file holds the records of that file joined
  by single line feeds, with no line feed after the last record.
\<close>

theorem second_run_changes_nothing:
  assumes "convert_polygons_to_bboxes label_dir bbox_dir class_id fs = (fs', r)"
    and "proper_listing fs label_dir"
    and "labels_untouched fs label_dir fs'"
  shows "convert_polygons_to_bboxes label_dir bbox_dir class_id fs' = (fs', r) \<and>
     (r = None \<longrightarrow>
      (\<forall>names n. listdir fs label_dir = Inr names \<longrightarrow> n \<in> set names \<longrightarrow>
         endswith n ''.txt'' \<longrightarrow>
         (\<exists>content bl. read_text fs (os_path_join label_dir n) = Inr content \<and>
            bbox_lines class_id (readlines content) = Inr bl \<and>
            read_text fs' (os_path_join bbox_dir n) = Inr (join [CHR 0x0A] bl) \<and>
            \<not> endswith (join [CHR 0x0A] bl) [CHR 0x0A])))"
proof -
  note s = second_run[OF assms]
  have "\<exists>content bl. read_text fs (os_path_join label_dir n) = Inr content \<and>
      bbox_lines class_id (readlines content) = Inr bl \<and>
      read_text fs' (os_path_join bbox_dir n) = Inr (join [CHR 0x0A] bl) \<and>
      \<not> endswith (join [CHR 0x0A] bl) [CHR 0x0A]"
    if "r = None" "listdir fs label_dir = Inr names" "n \<in> set names" "endswith n ''.txt''"
    for names n
  proof -
    from s(2)[OF that] obtain content bl where
      o: "read_text fs (os_path_join label_dir n) = Inr content"
        "bbox_lines class_id (readlines content) = Inr bl"
        "read_text fs' (os_path_join bbox_dir n) = Inr (join [CHR 0x0A] bl)" by blast
    from no_trailing_newline[OF o(2)] o show ?thesis by blast
  qed
  with s(1) show ?thesis by blast
qed

theorem second_run_changes_nothing_witness:
  "convert_polygons_to_bboxes ''labels'' ''bbox'' 0
     (label_file ''0 0.1 0.1 0.1 0.5 0.5 0.5 0.5 0.1'') =
     (converted_file ''0 0.1 0.1 0.1 0.5 0.5 0.5 0.5 0.1''
        ''0 0.300000 0.300000 0.400000 0.400000'', None) \<and>
   proper_listing (label_file ''0 0.1 0.1 0.1 0.5 0.5 0.5 0.5 0.1'') ''labels'' \<and>
   labels_untouched (label_file ''0 0.1 0.1 0.1 0.5 0.5 0.5 0.5 0.1'') ''labels''
     (converted_file ''0 0.1 0.1 0.1 0.5 0.5 0.5 0.5 0.1''
        ''0 0.300000 0.300000 0.400000 0.400000'') \<and>
   convert_polygons_to_bboxes ''labels'' ''bbox'' 0
     (converted_file ''0 0.1 0.1 0.1 0.5 0.5 0.5 0.5 0.1''
        ''0 0.300000 0.300000 0.400000 0.400000'') =
     (converted_file ''0 0.1 0.1 0.1 0.5 0.5 0.5 0.5 0.1''
        ''0 0.300000 0.300000 0.400000 0.400000'', None) \<and>
   (\<exists>bl. bbox_lines 0 (readlines ''0 0.1 0.1 0.1 0.5 0.5 0.5 0.5 0.1'') = Inr bl \<and>
      read_text (converted_file ''0 0.1 0.1 0.1 0.5 0.5 0.5 0.5 0.1''
        ''0 0.300000 0.300000 0.400000 0.400000'') ''bbox/a.txt'' = Inr (join [CHR 0x0A] bl) \<and>
      \<not> endswith (join [CHR 0x0A] bl) [CHR 0x0A])"
proof -
  have 2: "proper_listing (label_file ''0 0.1 0.1 0.1 0.5 0.5 0.5 0.5 0.1'') ''labels''"
    by (simp add: proper_listing_def path_eval)
  have 3: "labels_untouched (label_file ''0 0.1 0.1 0.1 0.5 0.5 0.5 0.5 0.1'') ''labels''
     (converted_file ''0 0.1 0.1 0.1 0.5 0.5 0.5 0.5 0.1''
        ''0 0.300000 0.300000 0.400000 0.400000'')"
    by (simp add: labels_untouched_def path_eval converted_file_def endswith_def)
  note t = second_run_changes_nothing[OF square_run 2 3]
  have ls: "listdir (label_file ''0 0.1 0.1 0.1 0.5 0.5 0.5 0.5 0.1'') ''labels'' = Inr [''a.txt'']"
    by (simp add: path_eval)
  have tx: "endswith ''a.txt'' ''.txt''" "''a.txt'' \<in> set [''a.txt'']"
    by (simp_all add: endswith_def)
  have j: "os_path_join ''labels'' ''a.txt'' = ''labels/a.txt''"
    "os_path_join ''bbox'' ''a.txt'' = ''bbox/a.txt''"
    by (simp_all add: os_path_join_def)
  from t ls tx obtain content bl where
    o: "read_text (label_file ''0 0.1 0.1 0.1 0.5 0.5 0.5 0.5 0.1'')
          (os_path_join ''labels'' ''a.txt'') = Inr content"
      "bbox_lines 0 (readlines content) = Inr bl"
      "read_text (converted_file ''0 0.1 0.1 0.1 0.5 0.5 0.5 0.5 0.1''
        ''0 0.300000 0.300000 0.400000 0.400000'') (os_path_join ''bbox'' ''a.txt'') =
         Inr (join [CHR 0x0A] bl)"
      "\<not> endswith (join [CHR 0x0A] bl) [CHR 0x0A]" by blast
  from o(1) have "content = ''0 0.1 0.1 0.1 0.5 0.5 0.5 0.5 0.1''"
    unfolding j label_file_read by simp
  with o(2,3,4) have "\<exists>bl. bbox_lines 0 (readlines ''0 0.1 0.1 0.1 0.5 0.5 0.5 0.5 0.1'') = Inr bl \<and>
      read_text (converted_file ''0 0.1 0.1 0.1 0.5 0.5 0.5 0.5 0.1''
        ''0 0.300000 0.300000 0.400000 0.400000'') ''bbox/a.txt'' = Inr (join [CHR 0x0A] bl) \<and>
      \<not> endswith (join [CHR 0x0A] bl) [CHR 0x0A]"
    unfolding j by blast
  with square_run 2 3 t show ?thesis by blast
qed

lemma float_0_300000: "py_float ''0.300000'' = Inr (Fin (5404319552844595 / 18014398509481984))"
proof -
  have "to_float False (3 / 10) = Fin (5404319552844595 / 18014398509481984)"
    by (rule to_float_pos[where k = "- 2"]) (simp_all add: float_eval)
  then show ?thesis by (simp add: parse_eval)
qed

lemma float_0_400000: "py_float ''0.400000'' = Inr (Fin (3602879701896397 / 9007199254740992))"
proof -
  have "to_float False (2 / 5) = Fin (3602879701896397 / 9007199254740992)"
    by (rule to_float_pos[where k = "- 2"]) (simp_all add: float_eval)
  then show ?thesis by (simp add: parse_eval)
qed

lemma record_is_skipped: "bbox_lines 0 [''0 0.300000 0.300000 0.400000 0.400000''] = Inr []"
  by (simp add: parse_numbers_def str_split_def str_strip_def is_space_def
      float_0 float_0_300000 float_0_400000)

text \<open>
  Claim C5 as stated fails when the output directory is the label directory: the first
  run overwrites the label file with its record, which has five tokens; the second run
  skips that line and writes an empty file. It fails in the same way when the output
  directory is given by another path to the label directory, as \<^verbatim>\<open>labels/\<close> is.
\<close>

theorem same_directory_counterexample:
  "dirs (fst (convert_polygons_to_bboxes ''labels'' ''labels'' 0
         (label_file ''0 0.1 0.1 0.1 0.5 0.5 0.5 0.5 0.1''))) ''labels'' =
     Some [(''a.txt'', ''0 0.300000 0.300000 0.400000 0.400000'')] \<and>
   dirs (fst (convert_polygons_to_bboxes ''labels'' ''labels'' 0
         (fst (convert_polygons_to_bboxes ''labels'' ''labels'' 0
            (label_file ''0 0.1 0.1 0.1 0.5 0.5 0.5 0.5 0.1''))))) ''labels'' =
     Some [(''a.txt'', [])] \<and>
   dirs (fst (convert_polygons_to_bboxes ''labels'' ''labels/'' 0
         (label_file ''0 0.1 0.1 0.1 0.5 0.5 0.5 0.5 0.1''))) ''labels'' =
     Some [(''a.txt'', ''0 0.300000 0.300000 0.400000 0.400000'')] \<and>
   dirs (fst (convert_polygons_to_bboxes ''labels'' ''labels/'' 0
         (fst (convert_polygons_to_bboxes ''labels'' ''labels/'' 0
            (label_file ''0 0.1 0.1 0.1 0.5 0.5 0.5 0.5 0.1''))))) ''labels'' =
     Some [(''a.txt'', [])]"
proof -
  have 1: "convert_polygons_to_bboxes ''labels'' ''labels'' 0
         (label_file ''0 0.1 0.1 0.1 0.5 0.5 0.5 0.5 0.1'') =
      (label_file ''0 0.300000 0.300000 0.400000 0.400000'', None)"
    by (simp add: convert_polygons_to_bboxes_def path_eval
      endswith_def readlines_def c4_lines del: bbox_lines.simps)
  have 2: "convert_polygons_to_bboxes ''labels'' ''labels'' 0
         (label_file ''0 0.300000 0.300000 0.400000 0.400000'') = (label_file [], None)"
    by (simp add: convert_polygons_to_bboxes_def path_eval
      endswith_def readlines_def record_is_skipped del: bbox_lines.simps)
  have 3: "convert_polygons_to_bboxes ''labels'' ''labels/'' 0
         (label_file ''0 0.1 0.1 0.1 0.5 0.5 0.5 0.5 0.1'') =
      (label_file ''0 0.300000 0.300000 0.400000 0.400000'', None)"
    by (simp add: convert_polygons_to_bboxes_def path_eval
      endswith_def readlines_def c4_lines del: bbox_lines.simps)
  have 4: "convert_polygons_to_bboxes ''labels'' ''labels/'' 0
         (label_file ''0 0.300000 0.300000 0.400000 0.400000'') = (label_file [], None)"
    by (simp add: convert_polygons_to_bboxes_def path_eval
      endswith_def readlines_def record_is_skipped del: bbox_lines.simps)
  show ?thesis
    unfolding 1 3 fst_conv 2 4 by (simp add: label_file_def)
qed

subsection \<open>Rounding to binary64: order, fixed points, error\<close>
















subsection \<open>Float operations on coordinates in the unit interval\<close>

















subsection \<open>Reading back what the converter writes\<close>

lemma digit_char_code: "d < 10 \<Longrightarrow> (of_char (digit_char d) :: nat) = 48 + d"
proof -
  assume "d < 10"
  then have "d \<in> {0, 1, 2, 3, 4, 5, 6, 7, 8, 9}" by auto
  then show ?thesis by (auto simp: digit_char_def)
qed


lemma digits_value_digit: "d < 10 \<Longrightarrow> digits_value acc [digit_char d] = Some (10 * acc + d)"
  by (simp add: digit_char_code)













subsection \<open>The slices of the converter and the positions of the coordinates\<close>





subsection \<open>Center and span of a bounding box\<close>






end
